theory Spec2Isabelle
  imports Main "HOL-Library.Char_ord" "HOL-Library.List_Lexorder"
begin

section \<open>The program's surroundings\<close>

text \<open>
  \<^verbatim>\<open>kirkifier_video.py\<close> is orchestration code: it reads and writes files in the working
  directory, calls an external media tool (ffmpeg) and two pre-trained model capabilities
  (face detection, face swap), draws one random number and prints progress lines.
  All of that is made explicit here. A \<open>world\<close> holds what the program can change; an
  \<open>env\<close> holds the behaviour of the collaborators the program cannot change.
\<close>

subsection \<open>Exceptions\<close>

datatype error =
    FileExistsError
  | FileNotFoundError
  | NotADirectoryError
  | IsADirectoryError
  | IndexError
  | CalledProcessError nat
  | InferenceError

subsection \<open>Files\<close>

text \<open>
  A regular file is modelled by what \<^verbatim>\<open>cv2.imread\<close> makes of it: the decoded pixel array
  when it is an image, an opaque blob otherwise (video, audio). The file system is an
  association list from path strings to nodes; the first entry of a path is the live one.
  Paths are compared as written (no normalisation of \<^verbatim>\<open>./\<close> or \<^verbatim>\<open>..\<close>).
\<close>

datatype 'img content = Image 'img | Blob nat

datatype 'img node = Dir | File "'img content"

type_synonym 'img filesys = "(string \<times> 'img node) list"

definition lookup :: "'img filesys \<Rightarrow> string \<Rightarrow> 'img node option" where
  "lookup fsys p = map_of fsys p"

text \<open>
  \<^verbatim>\<open>os.path.exists(p)\<close>, and \<^verbatim>\<open>Path(p).exists()\<close>: \<^verbatim>\<open>Path('')\<close> is the working directory,
  which exists, while \<^verbatim>\<open>os.path.exists('')\<close> is false.
\<close>

definition os_path_exists :: "'img filesys \<Rightarrow> string \<Rightarrow> bool" where
  "os_path_exists fsys p = (lookup fsys p \<noteq> None)"

definition path_exists :: "'img filesys \<Rightarrow> string \<Rightarrow> bool" where
  "path_exists fsys p = (p = [] \<or> lookup fsys p \<noteq> None)"

definition dirname :: "string \<Rightarrow> string" where
  "dirname p = rev (tl (dropWhile (\<lambda>c. c \<noteq> CHR ''/'') (rev p)))"

definition basename :: "string \<Rightarrow> string" where
  "basename p = rev (takeWhile (\<lambda>c. c \<noteq> CHR ''/'') (rev p))"

text \<open>The empty path stands for the working directory, which always exists.\<close>

definition is_dir :: "'img filesys \<Rightarrow> string \<Rightarrow> bool" where
  "is_dir fsys p = (p = [] \<or> lookup fsys p = Some Dir)"

definition store :: "string \<Rightarrow> 'img node \<Rightarrow> 'img filesys \<Rightarrow> 'img filesys" where
  "store p n fsys = (p, n) # filter (\<lambda>(q, _). q \<noteq> p) fsys"

text \<open>
  Writing a regular file (by \<^verbatim>\<open>cv2.imwrite\<close> or by the media tool) takes effect when the
  parent directory exists and the target is not a directory; otherwise nothing is written.
\<close>

definition write_file :: "string \<Rightarrow> 'img content \<Rightarrow> 'img filesys \<Rightarrow> 'img filesys" where
  "write_file p c fsys =
     (if is_dir fsys (dirname p) \<and> lookup fsys p \<noteq> Some Dir then store p (File c) fsys
      else fsys)"

text \<open>\<^verbatim>\<open>cv2.imread(p)\<close>: the image, or \<^verbatim>\<open>None\<close> when \<open>p\<close> is missing or not an image.\<close>

definition imread :: "'img filesys \<Rightarrow> string \<Rightarrow> 'img option" where
  "imread fsys p = (case lookup fsys p of Some (File (Image i)) \<Rightarrow> Some i | _ \<Rightarrow> None)"

text \<open>The names \<^verbatim>\<open>os.listdir(d)\<close> returns: the entries directly inside \<open>d\<close>.\<close>

definition dir_entries :: "'img filesys \<Rightarrow> string \<Rightarrow> string list" where
  "dir_entries fsys d =
     remdups (map basename (filter (\<lambda>p. CHR ''/'' \<in> set p \<and> dirname p = d) (map fst fsys)))"

definition listdir :: "'img filesys \<Rightarrow> string \<Rightarrow> error + string list" where
  "listdir fsys d =
     (case lookup fsys d of
        None \<Rightarrow> Inl FileNotFoundError
      | Some (File _) \<Rightarrow> Inl NotADirectoryError
      | Some Dir \<Rightarrow> Inr (dir_entries fsys d))"

text \<open>\<^verbatim>\<open>str.startswith\<close> and \<^verbatim>\<open>str.endswith\<close>.\<close>

definition startswith :: "string \<Rightarrow> string \<Rightarrow> bool" where
  "startswith s pre = (take (length pre) s = pre)"

definition endswith :: "string \<Rightarrow> string \<Rightarrow> bool" where
  "endswith s suf = (length suf \<le> length s \<and> drop (length s - length suf) s = suf)"

text \<open>
  \<^verbatim>\<open>shutil.rmtree(d, ignore_errors=True)\<close>: removes the directory \<open>d\<close> and what is
  below it, as far as the system lets it. Every error is ignored: when \<open>d\<close> is missing or
  a regular file nothing changes, and the paths the system refuses to remove (\<open>d\<close> being a
  symbolic link to a directory, an entry that cannot be deleted) stay, and so does every
  directory above one of them. \<open>keeps\<close> tells which paths the system refuses to remove.
\<close>

definition under :: "string \<Rightarrow> string \<Rightarrow> bool" where
  "under d p = (p = d \<or> startswith p (d @ ''/''))"

definition rmtree_fs :: "(string \<Rightarrow> bool) \<Rightarrow> string \<Rightarrow> 'img filesys \<Rightarrow> 'img filesys" where
  "rmtree_fs keeps d fsys =
     (if lookup fsys d = Some Dir
      then filter (\<lambda>(q, _). \<not> under d q \<or> list_ex (\<lambda>p. keeps p \<and> under q p) (map fst fsys)) fsys
      else fsys)"

definition remove_fs :: "string \<Rightarrow> 'img filesys \<Rightarrow> 'img filesys" where
  "remove_fs p fsys = filter (\<lambda>(q, _). q \<noteq> p) fsys"

subsection \<open>World and environment\<close>

text \<open>Every call that leaves the program is recorded, in the order it happens.\<close>

datatype ('img, 'face) event =
    LoadModels
  | Makedirs string
  | Ffmpeg "string list" nat
  | Detect 'img
  | Swap 'img 'face 'face
  | Imwrite string 'img
  | Rmtree string
  | Remove string

record ('img, 'face) world =
  files :: "'img filesys"
  printed :: "string list"
  events :: "('img, 'face) event list"
  draws :: nat

text \<open>
  The collaborators. \<open>models_load\<close>: whether loading the two models succeeds.
  \<open>face_get\<close> is \<^verbatim>\<open>FaceAnalysis.get\<close> and \<open>swapper_get\<close> is \<^verbatim>\<open>INSwapper.get\<close> with
  \<^verbatim>\<open>paste_back=True\<close>; \<open>None\<close> means that the call raises. \<open>rand_src k\<close> is what the
  \<open>k\<close>-th call of the random generator yields. \<open>ffmpeg\<close> maps a command line and the
  files it sees to its exit status and the files it writes. \<open>fps_str\<close> is the text of
  the frame rate \<^verbatim>\<open>cv2\<close> reports for a video path. \<open>rmtree_keeps d fsys\<close> holds of
  the paths that a removal of the tree \<open>d\<close> cannot delete.
\<close>

record ('img, 'face) env =
  models_load :: bool
  face_get :: "'img \<Rightarrow> 'face list option"
  swapper_get :: "'img \<Rightarrow> 'face \<Rightarrow> 'face \<Rightarrow> 'img option"
  rand_src :: "nat \<Rightarrow> nat"
  ffmpeg :: "string list \<Rightarrow> 'img filesys \<Rightarrow> nat \<times> (string \<times> 'img content) list"
  fps_str :: "'img filesys \<Rightarrow> string \<Rightarrow> string"
  rmtree_keeps :: "string \<Rightarrow> 'img filesys \<Rightarrow> string \<Rightarrow> bool"

definition log :: "('img, 'face) event \<Rightarrow> ('img, 'face) world \<Rightarrow> ('img, 'face) world" where
  "log e w = w\<lparr>events := events w @ [e]\<rparr>"

definition print :: "string \<Rightarrow> ('img, 'face) world \<Rightarrow> ('img, 'face) world" where
  "print s w = w\<lparr>printed := printed w @ [s]\<rparr>"

text \<open>\<^verbatim>\<open>cv2.imwrite(path, img)\<close>; its boolean result is ignored by the program.\<close>

definition imwrite :: "string \<Rightarrow> 'img \<Rightarrow> ('img, 'face) world \<Rightarrow> ('img, 'face) world" where
  "imwrite p i w = log (Imwrite p i) (w\<lparr>files := write_file p (Image i) (files w)\<rparr>)"

text \<open>
  \<^verbatim>\<open>faceanalysis.get(img)\<close> on what \<^verbatim>\<open>imread\<close> returned: on \<^verbatim>\<open>None\<close> the library
  raises before detecting anything.
\<close>

definition detect ::
  "('img, 'face) env \<Rightarrow> 'img option \<Rightarrow> ('img, 'face) world
     \<Rightarrow> (error + 'face list) \<times> ('img, 'face) world" where
  "detect en img w =
     (case img of
        None \<Rightarrow> (Inl InferenceError, w)
      | Some i \<Rightarrow>
          (case face_get en i of
             None \<Rightarrow> (Inl InferenceError, log (Detect i) w)
           | Some faces \<Rightarrow> (Inr faces, log (Detect i) w)))"

section \<open>Face Transform\<close>

text \<open>
  The loop of \<^verbatim>\<open>kirkify_frame\<close>:
  \<^verbatim>\<open>for face in faces: res = swapper.get(res, face, kirk_face, paste_back=True)\<close>
\<close>

fun swap_faces ::
  "('img, 'face) env \<Rightarrow> 'face \<Rightarrow> 'face list \<Rightarrow> 'img \<Rightarrow> ('img, 'face) world
     \<Rightarrow> (error + 'img) \<times> ('img, 'face) world" where
  "swap_faces en kirk_face [] res w = (Inr res, w)"
| "swap_faces en kirk_face (face # faces) res w =
     (case swapper_get en res face kirk_face of
        None \<Rightarrow> (Inl InferenceError, log (Swap res face kirk_face) w)
      | Some res' \<Rightarrow> swap_faces en kirk_face faces res' (log (Swap res face kirk_face) w))"


definition kirkify_frame ::
  "('img, 'face) env \<Rightarrow> string \<Rightarrow> string \<Rightarrow> 'face \<Rightarrow> ('img, 'face) world
     \<Rightarrow> error option \<times> ('img, 'face) world" where
  "kirkify_frame en frame_path output_path kirk_face w =
     (let img = imread (files w) frame_path in
      case detect en img w of
        (Inl e, w1) \<Rightarrow> (Some e, w1)
      | (Inr faces, w1) \<Rightarrow>
          (case img of
             None \<Rightarrow> (Some InferenceError, w1)
           | Some i \<Rightarrow>
               if faces \<noteq> [] then
                 (case swap_faces en kirk_face faces i w1 of
                    (Inl e, w2) \<Rightarrow> (Some e, w2)
                  | (Inr res, w2) \<Rightarrow> (None, imwrite output_path res w2))
               else (None, imwrite output_path i w1)))"

section \<open>Frame names\<close>

text \<open>
  \<^verbatim>\<open>str(n)\<close> for a natural number, and the media tool's frame pattern
  \<^verbatim>\<open>frame_%04d.png\<close>: the decimal index, padded with zeros to at least four digits.
\<close>

definition digit :: "nat \<Rightarrow> char" where
  "digit d = ''0123456789'' ! d"

fun dec :: "nat \<Rightarrow> string" where
  "dec n = (if n < 10 then [digit n] else dec (n div 10) @ [digit (n mod 10)])"

declare dec.simps [simp del]

definition zero_pad :: "nat \<Rightarrow> string \<Rightarrow> string" where
  "zero_pad wd s = replicate (wd - length s) CHR ''0'' @ s"

definition frame_name :: "nat \<Rightarrow> string" where
  "frame_name i = ''frame_'' @ zero_pad 4 (dec i) @ ''.png''"

section \<open>Media Extractor, Reassembler and cleanup\<close>

text \<open>
  \<^verbatim>\<open>os.makedirs(d, exist_ok=True)\<close>, for the one-component names the program uses.
\<close>

definition makedirs ::
  "string \<Rightarrow> ('img, 'face) world \<Rightarrow> error option \<times> ('img, 'face) world" where
  "makedirs d w =
     (case lookup (files w) d of
        Some Dir \<Rightarrow> (None, log (Makedirs d) w)
      | Some (File _) \<Rightarrow> (Some FileExistsError, log (Makedirs d) w)
      | None \<Rightarrow> (None, log (Makedirs d) (w\<lparr>files := store d Dir (files w)\<rparr>)))"

text \<open>
  \<^verbatim>\<open>subprocess.run(cmd, check=True, capture_output=True)\<close>: the tool runs once, whatever
  it wrote stays, and a non-zero exit status raises.
\<close>

definition subprocess_run ::
  "('img, 'face) env \<Rightarrow> string list \<Rightarrow> ('img, 'face) world
     \<Rightarrow> error option \<times> ('img, 'face) world" where
  "subprocess_run en cmd w =
     (case ffmpeg en cmd (files w) of
        (code, outs) \<Rightarrow>
          (let w1 = log (Ffmpeg cmd code)
                      (w\<lparr>files := fold (\<lambda>(p, c). write_file p c) outs (files w)\<rparr>)
           in if code \<noteq> 0 then (Some (CalledProcessError code), w1) else (None, w1)))"

definition extract_frames ::
  "('img, 'face) env \<Rightarrow> string \<Rightarrow> ('img, 'face) world
     \<Rightarrow> error option \<times> ('img, 'face) world" where
  "extract_frames en video_path w =
     (case makedirs ''unprocessed_frames'' w of
        (Some e, w1) \<Rightarrow> (Some e, w1)
      | (None, w1) \<Rightarrow>
          subprocess_run en
            [''ffmpeg'', ''-i'', video_path, ''-q:v'', ''2'',
             ''unprocessed_frames/frame_%04d.png''] w1)"

definition extract_audio ::
  "('img, 'face) env \<Rightarrow> string \<Rightarrow> ('img, 'face) world
     \<Rightarrow> (error + string) \<times> ('img, 'face) world" where
  "extract_audio en video_path w =
     (case subprocess_run en
             [''ffmpeg'', ''-i'', video_path, ''-map'', ''0:a'', ''-acodec'', ''copy'',
              ''audio.aac''] w of
        (Some e, w1) \<Rightarrow> (Inl e, w1)
      | (None, w1) \<Rightarrow> (Inr ''audio.aac'', w1))"

definition reconstruct_video ::
  "('img, 'face) env \<Rightarrow> string \<Rightarrow> string \<Rightarrow> string \<Rightarrow> ('img, 'face) world
     \<Rightarrow> error option \<times> ('img, 'face) world" where
  "reconstruct_video en fps audio_path output_path w =
     (case makedirs ''processed_frames'' w of
        (Some e, w1) \<Rightarrow> (Some e, w1)
      | (None, w1) \<Rightarrow>
          subprocess_run en
            [''ffmpeg'', ''-framerate'', fps,
             ''-i'', ''processed_frames/frame_%04d.png'',
             ''-i'', audio_path,
             ''-c:v'', ''libx264'', ''-pix_fmt'', ''yuv420p'',
             ''-c:a'', ''copy'', ''-shortest'',
             output_path] w1)"

definition rmtree ::
  "('img, 'face) env \<Rightarrow> string \<Rightarrow> ('img, 'face) world \<Rightarrow> ('img, 'face) world" where
  "rmtree en d w =
     log (Rmtree d) (w\<lparr>files := rmtree_fs (rmtree_keeps en d (files w)) d (files w)\<rparr>)"

text \<open>\<^verbatim>\<open>os.remove(p)\<close>: removes a regular file, raises on anything else.\<close>

definition os_remove ::
  "string \<Rightarrow> ('img, 'face) world \<Rightarrow> error option \<times> ('img, 'face) world" where
  "os_remove p w =
     (case lookup (files w) p of
        None \<Rightarrow> (Some FileNotFoundError, log (Remove p) w)
      | Some Dir \<Rightarrow> (Some IsADirectoryError, log (Remove p) w)
      | Some (File _) \<Rightarrow> (None, log (Remove p) (w\<lparr>files := remove_fs p (files w)\<rparr>)))"

definition cleanup ::
  "('img, 'face) env \<Rightarrow> string \<Rightarrow> ('img, 'face) world
     \<Rightarrow> error option \<times> ('img, 'face) world" where
  "cleanup en audio_path w =
     (let w1 = rmtree en ''unprocessed_frames'' w;
          w2 = rmtree en ''processed_frames'' w1
      in if os_path_exists (files w2) audio_path then os_remove audio_path w2 else (None, w2))"

section \<open>Frame Pipeline\<close>

text \<open>\<^verbatim>\<open>random.randint(a, b)\<close>: one draw, within \<open>a..b\<close>.\<close>

definition randint ::
  "('img, 'face) env \<Rightarrow> nat \<Rightarrow> nat \<Rightarrow> ('img, 'face) world \<Rightarrow> nat \<times> ('img, 'face) world" where
  "randint en a b w = (a + rand_src en (draws w) mod (b - a + 1), w\<lparr>draws := Suc (draws w)\<rparr>)"

text \<open>The \<^verbatim>\<open>for filename in tqdm(frame_files, ...)\<close> loop of \<^verbatim>\<open>process_all_frames\<close>.\<close>

fun process_frames ::
  "('img, 'face) env \<Rightarrow> 'face \<Rightarrow> string list \<Rightarrow> ('img, 'face) world
     \<Rightarrow> error option \<times> ('img, 'face) world" where
  "process_frames en kirk_face [] w = (None, w)"
| "process_frames en kirk_face (filename # rest) w =
     (let input_path = ''unprocessed_frames/'' @ filename;
          output_path = ''processed_frames/'' @ filename
      in case kirkify_frame en input_path output_path kirk_face w of
           (Some e, w1) \<Rightarrow> (Some e, w1)
         | (None, w1) \<Rightarrow> process_frames en kirk_face rest w1)"

definition process_all_frames ::
  "('img, 'face) env \<Rightarrow> ('img, 'face) world \<Rightarrow> error option \<times> ('img, 'face) world" where
  "process_all_frames en w =
     (case makedirs ''processed_frames'' w of
        (Some e, w1) \<Rightarrow> (Some e, w1)
      | (None, w1) \<Rightarrow>
          (case listdir (files w1) ''unprocessed_frames'' of
             Inl e \<Rightarrow> (Some e, w1)
           | Inr names \<Rightarrow>
               (let frame_files = filter (\<lambda>f. endswith f ''.png'') (sort names) in
                case randint en 0 2 w1 of
                  (r, w2) \<Rightarrow>
                    (let kirk = imread (files w2) (''kirks/kirk_'' @ dec r @ ''.jpg'') in
                     case detect en kirk w2 of
                       (Inl e, w3) \<Rightarrow> (Some e, w3)
                     | (Inr faces, w3) \<Rightarrow>
                         (case faces of
                            [] \<Rightarrow> (Some IndexError, w3)
                          | kirk_face # _ \<Rightarrow> process_frames en kirk_face frame_files w3)))))"

section \<open>Run Orchestrator\<close>

definition initialize_faceanalysis_and_swapper ::
  "('img, 'face) env \<Rightarrow> ('img, 'face) world \<Rightarrow> error option \<times> ('img, 'face) world" where
  "initialize_faceanalysis_and_swapper en w =
     (if models_load en then (None, log LoadModels w)
      else (Some InferenceError, log LoadModels w))"

text \<open>
  Lines 120 to 140 of \<^verbatim>\<open>main\<close>: the conversion itself, once the arguments are accepted.
  An exception is reported with the step it came from, as the traceback does.
\<close>

datatype stage = Loading | Extraction | Processing | Reassembly | Cleaning

definition run_conversion ::
  "('img, 'face) env \<Rightarrow> string \<Rightarrow> string \<Rightarrow> ('img, 'face) world
     \<Rightarrow> (stage \<times> error) option \<times> ('img, 'face) world" where
  "run_conversion en target_path output_path w =
     (case initialize_faceanalysis_and_swapper en w of
        (Some e, w1) \<Rightarrow> (Some (Loading, e), w1)
      | (None, w1) \<Rightarrow>
     (case extract_frames en target_path (print ''Extracting frames...'' w1) of
        (Some e, w2) \<Rightarrow> (Some (Extraction, e), w2)
      | (None, w2) \<Rightarrow>
     (case extract_audio en target_path (print ''Extracting audio...'' w2) of
        (Inl e, w3) \<Rightarrow> (Some (Extraction, e), w3)
      | (Inr audio_path, w3) \<Rightarrow>
     (case process_all_frames en (print ''Processing frames...'' w3) of
        (Some e, w4) \<Rightarrow> (Some (Processing, e), w4)
      | (None, w4) \<Rightarrow>
     (let w5 = print ''Reconstructing video...'' w4;
          fps = fps_str en (files w5) target_path
      in case reconstruct_video en fps audio_path output_path w5 of
        (Some e, w6) \<Rightarrow> (Some (Reassembly, e), w6)
      | (None, w6) \<Rightarrow>
     (case cleanup en audio_path (print ''Cleaning up...'' w6) of
        (Some e, w7) \<Rightarrow> (Some (Cleaning, e), w7)
      | (None, w7) \<Rightarrow>
          (None, print (''Done! Output saved to '' @ output_path) w7)))))))"

text \<open>
  \<^verbatim>\<open>main\<close>, from the argument vector to the exit status of the process: \<^verbatim>\<open>exit()\<close>
  and a normal return give 0, \<^verbatim>\<open>sys.exit(1)\<close> and an uncaught exception give 1.
\<close>

definition main ::
  "('img, 'face) env \<Rightarrow> string list \<Rightarrow> ('img, 'face) world \<Rightarrow> nat \<times> ('img, 'face) world" where
  "main en argv w =
     (if length argv > 1 \<and> argv ! 1 = ''init'' then
        (case initialize_faceanalysis_and_swapper en w of
           (Some e, w1) \<Rightarrow> (1, w1)
         | (None, w1) \<Rightarrow> (0, print ''initialized!!'' w1))
      else if length argv \<noteq> 3 then
        (1, print ''Usage: python script.py <input_video> <output_video>'' w)
      else
        (let target_path = argv ! 1; output_path = argv ! 2 in
         if \<not> path_exists (files w) target_path then
           (1, print ''ERROR: target path not real'' w)
         else
           (case run_conversion en target_path output_path w of
              (Some _, w') \<Rightarrow> (1, w')
            | (None, w') \<Rightarrow> (0, w'))))"

section \<open>Reading the record of calls\<close>

fun swap_calls :: "('img, 'face) event list \<Rightarrow> ('img \<times> 'face \<times> 'face) list" where
  "swap_calls [] = []"
| "swap_calls (Swap i f k # es) = (i, f, k) # swap_calls es"
| "swap_calls (_ # es) = swap_calls es"

fun imwrite_calls :: "('img, 'face) event list \<Rightarrow> (string \<times> 'img) list" where
  "imwrite_calls [] = []"
| "imwrite_calls (Imwrite p i # es) = (p, i) # imwrite_calls es"
| "imwrite_calls (_ # es) = imwrite_calls es"

fun ffmpeg_runs :: "('img, 'face) event list \<Rightarrow> (string list \<times> nat) list" where
  "ffmpeg_runs [] = []"
| "ffmpeg_runs (Ffmpeg cmd code # es) = (cmd, code) # ffmpeg_runs es"
| "ffmpeg_runs (_ # es) = ffmpeg_runs es"

fun removals :: "('img, 'face) event list \<Rightarrow> string list" where
  "removals [] = []"
| "removals (Rmtree d # es) = d # removals es"
| "removals (Remove p # es) = p # removals es"
| "removals (_ # es) = removals es"

text \<open>What a step added to the record.\<close>

definition new_events ::
  "('img, 'face) world \<Rightarrow> ('img, 'face) world \<Rightarrow> ('img, 'face) event list" where
  "new_events w w' = drop (length (events w)) (events w')"

text \<open>Which events one frame's processing may add, for a reference face \<open>k\<close>.\<close>

fun frame_event :: "'face \<Rightarrow> ('img, 'face) event \<Rightarrow> bool" where
  "frame_event k (Detect i) = True"
| "frame_event k (Swap i f k') = (k' = k)"
| "frame_event k (Imwrite p i) = True"
| "frame_event k _ = False"

text \<open>
  A step from \<open>w\<close> to \<open>w'\<close> that removes nothing: it only adds events, none of them a
  removal, its tool runs are \<open>runs\<close>, and every directory stays a directory.
\<close>

definition quiet_step ::
  "('img, 'face) world \<Rightarrow> ('img, 'face) world \<Rightarrow> (string list \<times> nat) list \<Rightarrow> bool" where
  "quiet_step w w' runs =
     (\<exists>evs. events w' = events w @ evs \<and> removals evs = [] \<and> ffmpeg_runs evs = runs
        \<and> (\<forall>d. lookup (files w) d = Some Dir \<longrightarrow> lookup (files w') d = Some Dir))"

text \<open>A step that calls no swap and draws no random number.\<close>

definition calm_step :: "('img, 'face) world \<Rightarrow> ('img, 'face) world \<Rightarrow> bool" where
  "calm_step w w' =
     ((\<exists>evs. events w' = events w @ evs \<and> swap_calls evs = []) \<and> draws w' = draws w)"

text \<open>
  The reference face a run of the pipeline started in \<open>w\<close> works with (lines 94 and 95):
  the first face detected in the pool image that the next draw of \<^verbatim>\<open>randint(0, 2)\<close>
  selects; \<open>None\<close> when there is none.
\<close>

definition reference_face :: "('img, 'face) env \<Rightarrow> ('img, 'face) world \<Rightarrow> 'face option" where
  "reference_face en w =
     (case imread (files w) (''kirks/kirk_'' @ dec (fst (randint en 0 2 w)) @ ''.jpg'') of
        None \<Rightarrow> None
      | Some kirk \<Rightarrow> (case face_get en kirk of Some (kirk_face # _) \<Rightarrow> Some kirk_face | _ \<Rightarrow> None))"

section \<open>A sample run\<close>

text \<open>
  Concrete collaborators and file systems, used to run the model on: images and faces are
  numbers, the tool extracts two frames (faces 1 and 2 in the first, none in the second)
  and the random generator always yields 4, which selects \<^verbatim>\<open>kirk_1.jpg\<close>.
\<close>

definition sample_env :: "(nat, nat) env" where
  "sample_env = \<lparr> models_load = True,
      face_get = (\<lambda>i. Some (if i = 10 then [1, 2] else if i = 11 then [] else [i])),
      swapper_get = (\<lambda>res f k. Some (res + f + k)),
      rand_src = (\<lambda>k. 4),
      ffmpeg = (\<lambda>cmd fsys.
         if last cmd = ''unprocessed_frames/frame_%04d.png''
         then (0, [(''unprocessed_frames/frame_0001.png'', Image 10),
                   (''unprocessed_frames/frame_0002.png'', Image 11)])
         else if last cmd = ''audio.aac'' then (0, [(''audio.aac'', Blob 2)])
         else (0, [(last cmd, Blob 3)])),
      fps_str = (\<lambda>fsys p. ''25.0''),
      rmtree_keeps = (\<lambda>d fsys q. False) \<rparr>"

definition initial_world :: "(nat, nat) world" where
  "initial_world = \<lparr> files = [(''in.mp4'', File (Blob 1)), (''kirks'', Dir),
       (''kirks/kirk_0.jpg'', File (Image 100)),
       (''kirks/kirk_1.jpg'', File (Image 101)),
       (''kirks/kirk_2.jpg'', File (Image 102))],
     printed = [], events = [], draws = 0 \<rparr>"

definition extracted_world :: "(nat, nat) world" where
  "extracted_world = initial_world \<lparr> files :=
       [(''audio.aac'', File (Blob 2)),
        (''unprocessed_frames/frame_0002.png'', File (Image 11)),
        (''unprocessed_frames/frame_0001.png'', File (Image 10)),
        (''unprocessed_frames'', Dir)] @ files initial_world \<rparr>"

definition frames_world :: "(nat, nat) world" where
  "frames_world = extracted_world \<lparr> files :=
       (''processed_frames'', Dir) # files extracted_world \<rparr>"

text \<open>
  The same collaborators with a detector that never finds a face, and a directory as a
  long video leaves it: frames 2000 and 10000.
\<close>

definition faceless_env :: "(nat, nat) env" where
  "faceless_env = sample_env \<lparr> face_get := (\<lambda>i. Some []) \<rparr>"

definition long_video_world :: "(nat, nat) world" where
  "long_video_world = initial_world \<lparr> files :=
       [(''unprocessed_frames/frame_10000.png'', File (Image 11)),
        (''unprocessed_frames/frame_2000.png'', File (Image 11)),
        (''unprocessed_frames'', Dir)] @ files initial_world \<rparr>"

text \<open>The same collaborators again, with a tool that fails on the audio extraction.\<close>

definition silent_env :: "(nat, nat) env" where
  "silent_env = sample_env \<lparr> ffmpeg := (\<lambda>cmd fsys.
      if last cmd = ''audio.aac'' then (1, []) else ffmpeg sample_env cmd fsys) \<rparr>"

text \<open>
  With a tool that fails on the encoding of the output video, and with a system that lets
  \<^verbatim>\<open>rmtree\<close> remove nothing.
\<close>

definition broken_encoder_env :: "(nat, nat) env" where
  "broken_encoder_env = sample_env \<lparr> ffmpeg := (\<lambda>cmd fsys.
      if cmd ! 1 = ''-framerate'' then (1, []) else ffmpeg sample_env cmd fsys) \<rparr>"

definition sticky_env :: "(nat, nat) env" where
  "sticky_env = sample_env \<lparr> rmtree_keeps := (\<lambda>d fsys q. True) \<rparr>"

section \<open>Basic facts about files\<close>

lemmas sample_defs = sample_env_def initial_world_def extracted_world_def frames_world_def

lemmas run_defs = kirkify_frame_def detect_def imwrite_def log_def print_def write_file_def
  store_def imread_def lookup_def is_dir_def dirname_def basename_def new_events_def
  makedirs_def listdir_def dir_entries_def endswith_def startswith_def under_def
  randint_def subprocess_run_def rmtree_def rmtree_fs_def remove_fs_def os_remove_def
  path_exists_def os_path_exists_def Let_def

lemma lookup_store: "lookup (store p n fsys) q = (if q = p then Some n else lookup fsys q)"
proof -
  have "map_of (filter (\<lambda>(r, _). r \<noteq> p) fsys) q = (if q = p then None else map_of fsys q)"
    by (induction fsys) auto
  then show ?thesis by (simp add: lookup_def store_def)
qed

lemma imread_write_file:
  "is_dir fsys (dirname p) \<Longrightarrow> lookup fsys p \<noteq> Some Dir
     \<Longrightarrow> imread (write_file p (Image i) fsys) p = Some i"
  by (simp add: imread_def write_file_def lookup_store)

lemma lookup_write_file_other: "q \<noteq> p \<Longrightarrow> lookup (write_file p c fsys) q = lookup fsys q"
  by (simp add: write_file_def lookup_store)

lemma write_file_Dir_iff:
  "lookup (write_file p c fsys) d = Some Dir \<longleftrightarrow> lookup fsys d = Some Dir"
proof (cases "d = p")
  case True
  then show ?thesis by (simp add: write_file_def lookup_store)
next
  case False
  then show ?thesis by (simp add: write_file_def lookup_store)
qed

lemma fold_write_file_Dir_iff:
  "lookup (fold (\<lambda>(p, c). write_file p c) outs fsys) d = Some Dir
     \<longleftrightarrow> lookup fsys d = Some Dir"
proof (induction outs arbitrary: fsys)
  case Nil
  show ?case by simp
next
  case (Cons a outs)
  obtain p c where a: "a = (p, c)" by (cases a)
  show ?case by (simp add: a Cons.IH write_file_Dir_iff)
qed

lemma imread_write_file_keeps:
  "imread fsys q \<noteq> None \<Longrightarrow> imread (write_file p (Image i) fsys) q \<noteq> None"
proof (cases "q = p")
  case True
  assume "imread fsys q \<noteq> None"
  then have "lookup fsys p \<noteq> Some Dir" using True by (auto simp: imread_def)
  then show ?thesis using True \<open>imread fsys q \<noteq> None\<close>
    by (simp add: imread_def write_file_def lookup_store)
next
  case False
  assume "imread fsys q \<noteq> None"
  then show ?thesis using False by (simp add: imread_def lookup_write_file_other)
qed

lemma filter_absent: "map_of fsys p = None \<Longrightarrow> filter (\<lambda>(q, _). q \<noteq> p) fsys = fsys"
  by (induction fsys) (auto split: if_splits)

lemma dir_entries_store_top:
  "CHR ''/'' \<notin> set p \<Longrightarrow> lookup fsys p = None
     \<Longrightarrow> dir_entries (store p n fsys) d = dir_entries fsys d"
  by (simp add: dir_entries_def store_def lookup_def filter_absent)

lemma dirname_join: "CHR ''/'' \<notin> set name \<Longrightarrow> dirname (d @ CHR ''/'' # name) = d"
proof -
  assume a: "CHR ''/'' \<notin> set name"
  have "dropWhile (\<lambda>c. c \<noteq> CHR ''/'') (rev name @ CHR ''/'' # rev d) = CHR ''/'' # rev d"
    using a by (subst dropWhile_append2) auto
  then show ?thesis by (simp add: dirname_def)
qed

lemma basename_no_slash: "CHR ''/'' \<notin> set (basename p)"
proof
  assume "CHR ''/'' \<in> set (basename p)"
  then have "CHR ''/'' \<in> set (takeWhile (\<lambda>c. c \<noteq> CHR ''/'') (rev p))"
    by (simp add: basename_def)
  then show False by (auto dest: set_takeWhileD)
qed

subsection \<open>What one frame's processing does\<close>

lemma events_log: "events (log e w) = events w @ [e]"
  and files_log: "files (log e w) = files w"
  and draws_log: "draws (log e w) = draws w"
  and printed_log: "printed (log e w) = printed w"
  by (simp_all add: log_def)

lemma events_print: "events (print s w) = events w"
  and files_print: "files (print s w) = files w"
  and draws_print: "draws (print s w) = draws w"
  and printed_print: "printed (print s w) = printed w @ [s]"
  by (simp_all add: print_def)

lemmas world_simps = events_log files_log draws_log printed_log
  events_print files_print draws_print printed_print

lemma swap_faces_effect:
  "swap_faces en k faces res w = (r, w') \<Longrightarrow>
     \<exists>imgs. events w' = events w @ map (\<lambda>(i, f). Swap i f k) (zip imgs faces)
       \<and> length imgs \<le> length faces
       \<and> (\<forall>x. r = Inr x \<longrightarrow> length imgs = length faces)
       \<and> files w' = files w \<and> draws w' = draws w \<and> printed w' = printed w"
proof (induction faces arbitrary: res w)
  case Nil
  then show ?case by auto
next
  case (Cons face faces)
  let ?w1 = "log (Swap res face k) w"
  show ?case
  proof (cases "swapper_get en res face k")
    case None
    with Cons.prems have r: "r = Inl InferenceError" and w': "w' = ?w1" by auto
    have "events w' = events w @ map (\<lambda>(i, f). Swap i f k) (zip [res] (face # faces))"
      by (simp add: w' world_simps)
    moreover have "files w' = files w" "draws w' = draws w" "printed w' = printed w"
      by (simp_all add: w' world_simps)
    ultimately show ?thesis using r
      by (intro exI[of _ "[res]"]) simp
  next
    case (Some res')
    with Cons.prems have "swap_faces en k faces res' ?w1 = (r, w')"
      by simp
    from Cons.IH[OF this] obtain imgs where
      ev: "events w' = events ?w1 @ map (\<lambda>(i, f). Swap i f k) (zip imgs faces)" and
      len: "length imgs \<le> length faces" "\<forall>x. r = Inr x \<longrightarrow> length imgs = length faces" and
      same: "files w' = files ?w1" "draws w' = draws ?w1" "printed w' = printed ?w1"
      by blast
    have "events w' = events w @ map (\<lambda>(i, f). Swap i f k) (zip (res # imgs) (face # faces))"
      by (simp add: ev world_simps)
    moreover have "files w' = files w" "draws w' = draws w" "printed w' = printed w"
      by (simp_all add: same world_simps)
    ultimately show ?thesis using len
      by (intro exI[of _ "res # imgs"]) simp
  qed
qed


lemma swap_calls_append: "swap_calls (xs @ ys) = swap_calls xs @ swap_calls ys"
  by (induction xs rule: swap_calls.induct) simp_all

lemma imwrite_calls_append: "imwrite_calls (xs @ ys) = imwrite_calls xs @ imwrite_calls ys"
  by (induction xs rule: imwrite_calls.induct) simp_all

lemma ffmpeg_runs_append: "ffmpeg_runs (xs @ ys) = ffmpeg_runs xs @ ffmpeg_runs ys"
  by (induction xs rule: ffmpeg_runs.induct) simp_all

lemma removals_append: "removals (xs @ ys) = removals xs @ removals ys"
  by (induction xs rule: removals.induct) simp_all


lemma imwrite_calls_swaps: "imwrite_calls (map (\<lambda>(i, f). Swap i f k) xs) = []"
  by (induction xs) auto

lemma new_events_append: "events w' = events w @ evs \<Longrightarrow> new_events w w' = evs"
  by (simp add: new_events_def)

lemma kirkify_frame_swaps:
  assumes "imread (files w) frame_path = Some img"
    and "face_get en img = Some faces"
    and "faces \<noteq> []"
    and "kirkify_frame en frame_path output_path kirk_face w = (None, w')"
  shows "\<exists>imgs res. length imgs = length faces
           \<and> events w' = events w @ Detect img # map (\<lambda>(i, f). Swap i f kirk_face) (zip imgs faces)
                 @ [Imwrite output_path res]"
proof -
  let ?w1 = "log (Detect img) w"
  have det: "detect en (Some img) w = (Inr faces, ?w1)"
    using assms(2) by (simp add: detect_def)
  obtain r w2 where sw: "swap_faces en kirk_face faces img ?w1 = (r, w2)"
    by (cases "swap_faces en kirk_face faces img ?w1")
  from assms(4) obtain res where r: "r = Inr res" and w': "w' = imwrite output_path res w2"
    using assms(1,3) det sw
    by (cases r) (simp_all add: kirkify_frame_def)
  from swap_faces_effect[OF sw] r obtain imgs where
    "events w2 = events ?w1 @ map (\<lambda>(i, f). Swap i f kirk_face) (zip imgs faces)"
    "length imgs = length faces"
    by blast
  then show ?thesis
    by (intro exI[of _ imgs] exI[of _ res]) (simp add: w' imwrite_def world_simps)
qed


subsection \<open>One frame, all frames\<close>

lemma frame_event_swaps: "list_all (frame_event k) (map (\<lambda>(i, f). Swap i f k) xs)"
  by (induction xs) auto

lemma kirkify_frame_effect:
  assumes "kirkify_frame en fp op k w = (r, w')"
  shows "\<exists>evs. events w' = events w @ evs \<and> list_all (frame_event k) evs
           \<and> draws w' = draws w \<and> printed w' = printed w
           \<and> ((r \<noteq> None \<and> files w' = files w)
              \<or> (\<exists>i. r = None \<and> files w' = write_file op (Image i) (files w)
                       \<and> imwrite_calls evs = [(op, i)]))"
proof (cases "imread (files w) fp")
  case None
  with assms have "r = Some InferenceError" "w' = w"
    by (simp_all add: kirkify_frame_def detect_def)
  then show ?thesis by simp
next
  case (Some img)
  let ?w1 = "log (Detect img) w"
  show ?thesis
  proof (cases "face_get en img")
    case None
    with assms Some have "r = Some InferenceError" "w' = ?w1"
      by (simp_all add: kirkify_frame_def detect_def)
    then show ?thesis by (simp add: world_simps)
  next
    case faces: (Some faces)
    show ?thesis
    proof (cases "faces = []")
      case True
      with assms Some faces have "r = None" "w' = imwrite op img ?w1"
        by (simp_all add: kirkify_frame_def detect_def)
      then show ?thesis
        by (intro exI[of _ "[Detect img, Imwrite op img]"]) (simp add: imwrite_def world_simps)
    next
      case False
      obtain r2 w2 where sw: "swap_faces en k faces img ?w1 = (r2, w2)"
        by (cases "swap_faces en k faces img ?w1")
      from swap_faces_effect[OF sw] obtain imgs where
        ev: "events w2 = events ?w1 @ map (\<lambda>(i, f). Swap i f k) (zip imgs faces)" and
        same: "files w2 = files ?w1" "draws w2 = draws ?w1" "printed w2 = printed ?w1"
        by blast
      show ?thesis
      proof (cases r2)
        case (Inl e)
        with assms Some faces False sw have "r = Some e" "w' = w2"
          by (simp_all add: kirkify_frame_def detect_def)
        then show ?thesis
          by (intro exI[of _ "Detect img # map (\<lambda>(i, f). Swap i f k) (zip imgs faces)"])
            (simp add: ev same world_simps frame_event_swaps)
      next
        case (Inr res)
        with assms Some faces False sw have "r = None" "w' = imwrite op res w2"
          by (simp_all add: kirkify_frame_def detect_def)
        then show ?thesis
          by (intro exI[of _ "Detect img # map (\<lambda>(i, f). Swap i f k) (zip imgs faces)
                @ [Imwrite op res]"])
            (simp add: ev same world_simps imwrite_def frame_event_swaps
              imwrite_calls_append imwrite_calls_swaps)
      qed
    qed
  qed
qed

lemma process_frames_effect:
  assumes "process_frames en k names w = (r, w')"
  shows "\<exists>evs. events w' = events w @ evs \<and> list_all (frame_event k) evs
           \<and> draws w' = draws w \<and> printed w' = printed w
           \<and> (\<forall>d. lookup (files w') d = Some Dir \<longleftrightarrow> lookup (files w) d = Some Dir)
           \<and> (r = None \<longrightarrow>
                map fst (imwrite_calls evs) = map (\<lambda>f. ''processed_frames/'' @ f) names)"
  using assms
proof (induction names arbitrary: w)
  case Nil
  then show ?case by simp
next
  case (Cons filename rest)
  let ?ip = "''unprocessed_frames/'' @ filename"
  let ?op = "''processed_frames/'' @ filename"
  obtain r1 w1 where k1: "kirkify_frame en ?ip ?op k w = (r1, w1)"
    by (cases "kirkify_frame en ?ip ?op k w")
  from kirkify_frame_effect[OF k1] obtain evs1 where
    e1: "events w1 = events w @ evs1" "list_all (frame_event k) evs1"
      "draws w1 = draws w" "printed w1 = printed w" and
    f1: "(r1 \<noteq> None \<and> files w1 = files w)
         \<or> (\<exists>i. r1 = None \<and> files w1 = write_file ?op (Image i) (files w)
                  \<and> imwrite_calls evs1 = [(?op, i)])"
    by blast
  have d1: "\<forall>d. lookup (files w1) d = Some Dir \<longleftrightarrow> lookup (files w) d = Some Dir"
    using f1 by (auto simp: write_file_Dir_iff)
  show ?case
  proof (cases r1)
    case (Some e)
    with Cons.prems k1 have "r = Some e" "w' = w1" by (simp_all add: Let_def)
    then show ?thesis using e1 d1 by (intro exI[of _ evs1]) simp
  next
    case None
    with Cons.prems k1 have "process_frames en k rest w1 = (r, w')" by (simp add: Let_def)
    from Cons.IH[OF this] obtain evs2 where
      e2: "events w' = events w1 @ evs2" "list_all (frame_event k) evs2"
        "draws w' = draws w1" "printed w' = printed w1"
        "\<forall>d. lookup (files w') d = Some Dir \<longleftrightarrow> lookup (files w1) d = Some Dir"
        "r = None \<longrightarrow> map fst (imwrite_calls evs2) = map (\<lambda>f. ''processed_frames/'' @ f) rest"
      by blast
    from f1 None obtain i where i: "imwrite_calls evs1 = [(?op, i)]" by blast
    show ?thesis using e1 e2 d1 i
      by (intro exI[of _ "evs1 @ evs2"]) (simp add: imwrite_calls_append)
  qed
qed

lemma process_frames_written:
  assumes "process_frames en k names w = (None, w')"
    and "is_dir (files w) ''processed_frames''"
    and "\<forall>n \<in> set names. CHR ''/'' \<notin> set n"
  shows "(\<forall>q. imread (files w) q \<noteq> None \<longrightarrow> imread (files w') q \<noteq> None)
       \<and> (\<forall>n \<in> set names. lookup (files w) (''processed_frames/'' @ n) \<noteq> Some Dir
             \<longrightarrow> imread (files w') (''processed_frames/'' @ n) \<noteq> None)"
  using assms
proof (induction names arbitrary: w)
  case Nil
  then show ?case by simp
next
  case (Cons filename rest)
  let ?ip = "''unprocessed_frames/'' @ filename"
  let ?op = "''processed_frames/'' @ filename"
  obtain r1 w1 where k1: "kirkify_frame en ?ip ?op k w = (r1, w1)"
    by (cases "kirkify_frame en ?ip ?op k w")
  have r1: "r1 = None" and rest: "process_frames en k rest w1 = (None, w')"
    using Cons.prems(1) k1 by (cases r1; simp add: Let_def)+
  from kirkify_frame_effect[OF k1] r1 obtain i where
    f1: "files w1 = write_file ?op (Image i) (files w)"
    by blast
  have dir1: "is_dir (files w1) ''processed_frames''"
    using Cons.prems(2) by (simp add: is_dir_def f1 write_file_Dir_iff)
  have noslash: "\<forall>n \<in> set rest. CHR ''/'' \<notin> set n"
    using Cons.prems(3) by simp
  note IH = Cons.IH[OF rest dir1 noslash]
  have keep1: "\<And>q. imread (files w) q \<noteq> None \<Longrightarrow> imread (files w1) q \<noteq> None"
    by (simp add: f1 imread_write_file_keeps)
  have dn: "dirname ?op = ''processed_frames''"
    using dirname_join[of filename "''processed_frames''"] Cons.prems(3) by simp
  have here: "imread (files w1) ?op \<noteq> None" if nd: "lookup (files w) ?op \<noteq> Some Dir"
  proof -
    have "is_dir (files w) (dirname ?op)"
      unfolding dn by (rule Cons.prems(2))
    from imread_write_file[OF this nd, of i] show ?thesis
      unfolding f1 by simp
  qed
  have dirs: "\<And>d. lookup (files w1) d = Some Dir \<longleftrightarrow> lookup (files w) d = Some Dir"
    by (simp add: f1 write_file_Dir_iff)
  show ?case
  proof (intro conjI allI ballI impI)
    fix q assume "imread (files w) q \<noteq> None"
    then show "imread (files w') q \<noteq> None" using keep1 IH by blast
  next
    fix n assume n: "n \<in> set (filename # rest)"
      and nd: "lookup (files w) (''processed_frames/'' @ n) \<noteq> Some Dir"
    show "imread (files w') (''processed_frames/'' @ n) \<noteq> None"
    proof (cases "n = filename")
      case True
      then show ?thesis using here nd IH by blast
    next
      case False
      then have "n \<in> set rest" using n by simp
      moreover have "lookup (files w1) (''processed_frames/'' @ n) \<noteq> Some Dir"
        using nd dirs by blast
      ultimately show ?thesis using IH by blast
    qed
  qed
qed

subsection \<open>The pipeline's steps\<close>

lemma makedirs_events: "events (snd (makedirs d w)) = events w @ [Makedirs d]"
  and makedirs_draws: "draws (snd (makedirs d w)) = draws w"
  and makedirs_printed: "printed (snd (makedirs d w)) = printed w"
  by (simp_all add: makedirs_def world_simps split: option.splits node.splits)

lemma makedirs_lookup_other:
  "q \<noteq> d \<Longrightarrow> lookup (files (snd (makedirs d w))) q = lookup (files w) q"
  by (simp add: makedirs_def world_simps lookup_store split: option.splits node.splits)

lemma makedirs_keeps_Dir:
  "lookup (files w) q = Some Dir \<Longrightarrow> lookup (files (snd (makedirs d w))) q = Some Dir"
proof (cases "q = d")
  case True
  assume "lookup (files w) q = Some Dir"
  then show ?thesis using True by (simp add: makedirs_def world_simps)
next
  case False
  assume "lookup (files w) q = Some Dir"
  then show ?thesis using False by (simp add: makedirs_lookup_other)
qed

lemma makedirs_ok_Dir:
  "fst (makedirs d w) = None \<Longrightarrow> lookup (files (snd (makedirs d w))) d = Some Dir"
  by (simp add: makedirs_def world_simps lookup_store split: option.splits node.splits)

lemma makedirs_fails:
  "fst (makedirs d w) = Some e \<Longrightarrow> e = FileExistsError \<and> files (snd (makedirs d w)) = files w"
  by (simp add: makedirs_def world_simps split: option.splits node.splits)

lemma makedirs_dir_entries:
  "CHR ''/'' \<notin> set d \<Longrightarrow> dir_entries (files (snd (makedirs d w))) x = dir_entries (files w) x"
  by (simp add: makedirs_def world_simps dir_entries_store_top split: option.splits node.splits)

lemma process_all_frames_cases:
  assumes "process_all_frames en w = (r, w')"
  obtains (early) evs where "r \<noteq> None" "events w' = events w @ Makedirs ''processed_frames'' # evs"
      "evs = [] \<or> (\<exists>kimg. evs = [Detect kimg])" "draws w' \<le> Suc (draws w)"
      "printed w' = printed w"
      "\<forall>d. lookup (files w) d = Some Dir \<longrightarrow> lookup (files w') d = Some Dir"
  | (loop) kf kimg w3 where "reference_face en w = Some kf"
      "events w3 = events w @ [Makedirs ''processed_frames'', Detect kimg]"
      "draws w3 = Suc (draws w)" "printed w3 = printed w"
      "files w3 = files (snd (makedirs ''processed_frames'' w))"
      "fst (makedirs ''processed_frames'' w) = None"
      "process_frames en kf
         (filter (\<lambda>f. endswith f ''.png'') (sort (dir_entries (files w) ''unprocessed_frames''))) w3
       = (r, w')"
proof -
  let ?p = "''processed_frames''"
  let ?u = "''unprocessed_frames''"
  let ?w1 = "snd (makedirs ?p w)"
  have mk: "makedirs ?p w = (fst (makedirs ?p w), ?w1)" by simp
  show ?thesis
  proof (cases "fst (makedirs ?p w)")
    case (Some e)
    with assms mk have "r = Some e" "w' = ?w1"
      by (simp_all add: process_all_frames_def split: prod.splits)
    then show ?thesis
      by (intro early[of "[]"]) (simp_all add: makedirs_events makedirs_draws makedirs_printed
          makedirs_keeps_Dir)
  next
    case None
    note ok = this
    show ?thesis
    proof (cases "listdir (files ?w1) ?u")
      case (Inl e)
      with assms mk ok have "r = Some e" "w' = ?w1"
        by (simp_all add: process_all_frames_def split: prod.splits)
      then show ?thesis
        by (intro early[of "[]"]) (simp_all add: makedirs_events makedirs_draws makedirs_printed
            makedirs_keeps_Dir)
    next
      case (Inr names)
      then have names: "names = dir_entries (files w) ?u"
        by (auto simp: listdir_def makedirs_dir_entries split: option.splits node.splits)
      let ?ff = "filter (\<lambda>f. endswith f ''.png'') (sort names)"
      let ?w2 = "?w1\<lparr>draws := Suc (draws ?w1)\<rparr>"
      let ?kp = "''kirks/kirk_'' @ dec (rand_src en (draws w) mod 3) @ ''.jpg''"
      have rnd: "randint en 0 2 ?w1 = (rand_src en (draws w) mod 3, ?w2)"
        by (simp add: randint_def makedirs_draws)
      have kp: "imread (files ?w2) ?kp = imread (files w) ?kp"
        by (simp add: imread_def makedirs_lookup_other)
      have body: "(r, w') = (case detect en (imread (files w) ?kp) ?w2 of
                       (Inl e, w3) \<Rightarrow> (Some e, w3)
                     | (Inr faces, w3) \<Rightarrow>
                         (case faces of
                            [] \<Rightarrow> (Some IndexError, w3)
                          | kirk_face # _ \<Rightarrow> process_frames en kirk_face ?ff w3))"
        using assms mk ok Inr rnd kp
        by (simp add: process_all_frames_def Let_def split: prod.splits)
      have base: "events ?w2 = events w @ [Makedirs ?p]" "draws ?w2 = Suc (draws w)"
        "printed ?w2 = printed w" "files ?w2 = files ?w1"
        by (simp_all add: makedirs_events makedirs_draws makedirs_printed)
      have dirs: "\<forall>d. lookup (files w) d = Some Dir \<longrightarrow> lookup (files ?w2) d = Some Dir"
        by (simp add: makedirs_keeps_Dir)
      show ?thesis
      proof (cases "imread (files w) ?kp")
        case None
        with body have "r = Some InferenceError" "w' = ?w2" by (simp_all add: detect_def)
        then show ?thesis using base dirs
          by (intro early[of "[]"]) simp_all
      next
        case (Some kimg)
        let ?w3 = "log (Detect kimg) ?w2"
        have base3: "events ?w3 = events w @ [Makedirs ?p, Detect kimg]"
          "draws ?w3 = Suc (draws w)" "printed ?w3 = printed w" "files ?w3 = files ?w1"
          using base by (simp_all add: world_simps)
        show ?thesis
        proof (cases "face_get en kimg")
          case None
          with body Some have "r = Some InferenceError" "w' = ?w3" by (simp_all add: detect_def)
          then show ?thesis using base3 dirs
            by (intro early[of "[Detect kimg]"]) simp_all
        next
          case faces: (Some faces)
          show ?thesis
          proof (cases faces)
            case Nil
            with body Some faces have "r = Some IndexError" "w' = ?w3"
              by (simp_all add: detect_def)
            then show ?thesis using base3 dirs
              by (intro early[of "[Detect kimg]"]) simp_all
          next
            case (Cons kf rest)
            with body Some faces have "process_frames en kf ?ff ?w3 = (r, w')"
              by (simp add: detect_def)
            moreover have "reference_face en w = Some kf"
              using Some faces Cons by (simp add: reference_face_def randint_def)
            ultimately show ?thesis using base3 ok names
              by (intro loop[of kf ?w3 kimg]) simp_all
          qed
        qed
      qed
    qed
  qed
qed

subsection \<open>Frame names and their order\<close>

lemma digit_less: "a < 10 \<Longrightarrow> b < 10 \<Longrightarrow> digit a < digit b \<longleftrightarrow> a < b"
proof -
  assume "a < 10" "b < 10"
  then have "a \<in> {0,1,2,3,4,5,6,7,8,9}" "b \<in> {0,1,2,3,4,5,6,7,8,9}" by auto
  then show ?thesis by (auto simp: digit_def)
qed

lemma digit_eq: "a < 10 \<Longrightarrow> b < 10 \<Longrightarrow> digit a = digit b \<longleftrightarrow> a = b"
proof -
  assume "a < 10" "b < 10"
  then have "a \<in> {0,1,2,3,4,5,6,7,8,9}" "b \<in> {0,1,2,3,4,5,6,7,8,9}" by auto
  then show ?thesis by (auto simp: digit_def)
qed

lemma dec1: "n < 10 \<Longrightarrow> dec n = [digit n]"
  by (simp add: dec.simps)

lemma dec2: "10 \<le> n \<Longrightarrow> n < 100 \<Longrightarrow> dec n = [digit (n div 10), digit (n mod 10)]"
  by (subst dec.simps) (simp add: dec1)

lemma dec3: "100 \<le> n \<Longrightarrow> n < 1000 \<Longrightarrow>
    dec n = [digit (n div 100), digit (n div 10 mod 10), digit (n mod 10)]"
  by (subst dec.simps) (simp add: dec2 div_mult2_eq[symmetric])

lemma dec4: "1000 \<le> n \<Longrightarrow> n < 10000 \<Longrightarrow>
    dec n = [digit (n div 1000), digit (n div 100 mod 10), digit (n div 10 mod 10), digit (n mod 10)]"
  by (subst dec.simps) (simp add: dec3 div_mult2_eq[symmetric])

lemma digit0: "digit 0 = CHR ''0''"
  by (simp add: digit_def)

lemma replicate_small: "replicate 3 x = [x, x, x]" "replicate 2 x = [x, x]"
  by (simp_all add: numeral_3_eq_3 numeral_2_eq_2)

lemma zero_pad_dec:
  assumes "n < 10000"
  shows "zero_pad 4 (dec n) =
    [digit (n div 1000), digit (n div 100 mod 10), digit (n div 10 mod 10), digit (n mod 10)]"
proof -
  consider "n < 10" | "10 \<le> n" "n < 100" | "100 \<le> n" "n < 1000" | "1000 \<le> n"
    by linarith
  then show ?thesis
  proof cases
    case 1
    then show ?thesis by (simp add: dec1 zero_pad_def digit0 replicate_small)
  next
    case 2
    then show ?thesis by (simp add: dec2 zero_pad_def digit0 replicate_small)
  next
    case 3
    then show ?thesis by (simp add: dec3 zero_pad_def digit0)
  next
    case 4
    then show ?thesis using assms by (simp add: dec4 zero_pad_def)
  qed
qed

lemma less_by_digits_aux:
  "r < 10 \<Longrightarrow> s < 10 \<Longrightarrow> (10 * x + r < 10 * y + s) = (x < y \<or> x = y \<and> r < s)" for x y r s :: nat
  by auto

lemma less_by_digits:
  "(a::nat) < b \<longleftrightarrow> a div 10 < b div 10 \<or> (a div 10 = b div 10 \<and> a mod 10 < b mod 10)"
proof -
  have "a < b \<longleftrightarrow> 10 * (a div 10) + a mod 10 < 10 * (b div 10) + b mod 10"
    by simp
  also have "\<dots> \<longleftrightarrow> a div 10 < b div 10 \<or> (a div 10 = b div 10 \<and> a mod 10 < b mod 10)"
    by (rule less_by_digits_aux) simp_all
  finally show ?thesis .
qed

lemma four_digits_less:
  assumes "i < j" "j < 10000"
  shows "[digit (i div 1000), digit (i div 100 mod 10), digit (i div 10 mod 10), digit (i mod 10)]
       < [digit (j div 1000), digit (j div 100 mod 10), digit (j div 10 mod 10), digit (j mod 10)]"
proof -
  have b3: "i div 1000 < 10" "j div 1000 < 10" using assms by simp_all
  have d100: "i div 10 div 10 = i div 100" "j div 10 div 10 = j div 100"
    and d1000: "i div 100 div 10 = i div 1000" "j div 100 div 10 = j div 1000"
    by (simp_all add: div_mult2_eq[symmetric])
  note s0 = less_by_digits[of i j]
  note s1 = less_by_digits[of "i div 10" "j div 10", unfolded d100]
  note s2 = less_by_digits[of "i div 100" "j div 100", unfolded d1000]
  have e1: "i div 10 = j div 10 \<Longrightarrow> i div 100 = j div 100 \<and> i div 10 mod 10 = j div 10 mod 10"
    using d100 by metis
  have e2: "i div 100 = j div 100 \<Longrightarrow> i div 1000 = j div 1000 \<and> i div 100 mod 10 = j div 100 mod 10"
    using d1000 by metis
  have "i div 1000 < j div 1000
      \<or> i div 1000 = j div 1000 \<and> (i div 100 mod 10 < j div 100 mod 10
      \<or> i div 100 mod 10 = j div 100 mod 10 \<and> (i div 10 mod 10 < j div 10 mod 10
      \<or> i div 10 mod 10 = j div 10 mod 10 \<and> i mod 10 < j mod 10))"
    using assms(1) s0 s1 s2 e1 e2 by blast
  then show ?thesis
    using b3 by (simp add: digit_less digit_eq)
qed

lemma frame_name_small:
  "i < 10000 \<Longrightarrow> frame_name i = ''frame_'' @
     [digit (i div 1000), digit (i div 100 mod 10), digit (i div 10 mod 10), digit (i mod 10)]
     @ ''.png''"
  by (simp add: frame_name_def zero_pad_dec)

lemma frame_name_mono:
  assumes "i < j" "j < 10000"
  shows "frame_name i < frame_name j"
proof -
  have "i < 10000" using assms by simp
  then show ?thesis
    using four_digits_less[OF assms] assms(2)
    by (simp add: frame_name_small)
qed

lemma endswith_append: "endswith (s @ suf) suf"
  by (simp add: endswith_def)

lemma frame_name_png: "endswith (frame_name i) ''.png''"
  unfolding frame_name_def append_assoc[symmetric] by (rule endswith_append)

lemma digit_no_slash: "d < 10 \<Longrightarrow> digit d \<noteq> CHR ''/''"
proof -
  assume "d < 10"
  then have "d \<in> {0,1,2,3,4,5,6,7,8,9}" by auto
  then show ?thesis by (auto simp: digit_def)
qed

lemma dec_no_slash: "CHR ''/'' \<notin> set (dec n)"
proof (induction n rule: dec.induct)
  case (1 n)
  show ?case
  proof (cases "n < 10")
    case True
    then show ?thesis using digit_no_slash[of n] by (simp add: dec1)
  next
    case False
    have "dec n = dec (n div 10) @ [digit (n mod 10)]"
      using False by (subst dec.simps) simp
    then show ?thesis using 1[OF False] digit_no_slash[of "n mod 10"] by simp
  qed
qed

lemma frame_name_no_slash: "CHR ''/'' \<notin> set (frame_name i)"
  using dec_no_slash[of i] by (simp add: frame_name_def zero_pad_def)

subsection \<open>The sample run, evaluated\<close>

lemmas eval_defs = sample_defs run_defs process_all_frames_def dec.simps digit_def
  extract_frames_def extract_audio_def reconstruct_video_def cleanup_def
  initialize_faceanalysis_and_swapper_def run_conversion_def main_def
  frame_name_def zero_pad_def replicate_small reference_face_def
  faceless_env_def long_video_world_def

lemma frame_events_quiet:
  "list_all (frame_event k) evs \<Longrightarrow> ffmpeg_runs evs = [] \<and> removals evs = []"
proof (induction evs)
  case Nil
  show ?case by simp
next
  case (Cons e evs)
  then show ?case by (cases e) simp_all
qed

lemma frame_events_reference:
  "list_all (frame_event k) evs \<Longrightarrow> c \<in> set (swap_calls evs) \<Longrightarrow> snd (snd c) = k"
proof (induction evs)
  case Nil
  then show ?case by simp
next
  case (Cons e evs)
  then show ?case by (cases e) auto
qed

lemma sample_processing:
  "process_all_frames sample_env extracted_world =
   (None,
    \<lparr>files =
       [(''processed_frames/frame_0002.png'', File (Image 11)),
        (''processed_frames/frame_0001.png'', File (Image 215)),
        (''processed_frames'', Dir), (''audio.aac'', File (Blob 2)),
        (''unprocessed_frames/frame_0002.png'', File (Image 11)),
        (''unprocessed_frames/frame_0001.png'', File (Image 10)),
        (''unprocessed_frames'', Dir), (''in.mp4'', File (Blob 1)),
        (''kirks'', Dir), (''kirks/kirk_0.jpg'', File (Image 100)),
        (''kirks/kirk_1.jpg'', File (Image 101)),
        (''kirks/kirk_2.jpg'', File (Image 102))],
     printed = [],
     events =
       [Makedirs ''processed_frames'', Detect 101, Detect 10, Swap 10 1 101,
        Swap 112 2 101, Imwrite ''processed_frames/frame_0001.png'' 215,
        Detect 11, Imwrite ''processed_frames/frame_0002.png'' 11],
     draws = 1\<rparr>)"
  by (simp add: eval_defs)

subsection \<open>Sorted listings\<close>

lemma distinct_dir_entries: "distinct (dir_entries fsys d)"
  by (simp add: dir_entries_def)

lemma sorted_frame_names:
  assumes "sorted_wrt (<) idxs" "\<forall>i \<in> set idxs. i < 10000"
  shows "sorted_wrt (<) (map frame_name idxs)"
proof -
  have "sorted_wrt (\<lambda>i j. frame_name i < frame_name j) idxs"
    using assms(1)
  proof (rule sorted_wrt_mono_rel[rotated])
    fix i j assume "i \<in> set idxs" "j \<in> set idxs" "i < j"
    then show "frame_name i < frame_name j"
      using assms(2) by (simp add: frame_name_mono)
  qed
  then show ?thesis by (simp add: sorted_wrt_map)
qed

lemma png_frames_in_order:
  assumes "sorted_wrt (<) idxs" "\<forall>i \<in> set idxs. i < 10000"
    and "set (filter (\<lambda>f. endswith f ''.png'') names) = frame_name ` set idxs"
    and "distinct names"
  shows "filter (\<lambda>f. endswith f ''.png'') (sort names) = map frame_name idxs"
proof -
  let ?ys = "sort (filter (\<lambda>f. endswith f ''.png'') names)"
  have "sorted ?ys" "distinct ?ys"
    using assms(4) by simp_all
  moreover have "sorted (map frame_name idxs)" "distinct (map frame_name idxs)"
    using sorted_frame_names[OF assms(1,2)] by (simp_all add: strict_sorted_iff)
  moreover have "set ?ys = set (map frame_name idxs)"
    using assms(3) by simp
  ultimately have "?ys = map frame_name idxs"
    by (rule sorted_distinct_set_unique)
  then show ?thesis by (simp add: filter_sort)
qed

subsection \<open>Steps that remove nothing\<close>

lemma quiet_step_trans:
  "quiet_step w w1 r1 \<Longrightarrow> quiet_step w1 w2 r2 \<Longrightarrow> quiet_step w w2 (r1 @ r2)"
proof -
  assume "quiet_step w w1 r1" "quiet_step w1 w2 r2"
  then obtain e1 e2 where
    1: "events w1 = events w @ e1" "removals e1 = []" "ffmpeg_runs e1 = r1"
       "\<forall>d. lookup (files w) d = Some Dir \<longrightarrow> lookup (files w1) d = Some Dir" and
    2: "events w2 = events w1 @ e2" "removals e2 = []" "ffmpeg_runs e2 = r2"
       "\<forall>d. lookup (files w1) d = Some Dir \<longrightarrow> lookup (files w2) d = Some Dir"
    unfolding quiet_step_def by blast
  show ?thesis
    unfolding quiet_step_def using 1 2
    by (intro exI[of _ "e1 @ e2"]) (simp add: removals_append ffmpeg_runs_append)
qed

lemma quiet_step_print: "quiet_step w (print s w) []"
  unfolding quiet_step_def by (intro exI[of _ "[]"]) (simp add: world_simps)

lemma quiet_step_new_events:
  "quiet_step w w' runs \<Longrightarrow> removals (new_events w w') = [] \<and> ffmpeg_runs (new_events w w') = runs"
  unfolding quiet_step_def by (auto simp: new_events_def)

lemma quiet_step_Dir:
  "quiet_step w w' runs \<Longrightarrow> lookup (files w) d = Some Dir \<Longrightarrow> lookup (files w') d = Some Dir"
  unfolding quiet_step_def by blast

lemma quiet_initialize:
  "initialize_faceanalysis_and_swapper en w = (r, w') \<Longrightarrow> quiet_step w w' []"
  unfolding quiet_step_def
  by (intro exI[of _ "[LoadModels]"])
    (auto simp: initialize_faceanalysis_and_swapper_def world_simps split: if_splits)

lemma quiet_makedirs:
  "makedirs d w = (r, w') \<Longrightarrow> quiet_step w w' []"
  unfolding quiet_step_def
  using makedirs_events[of d w] makedirs_keeps_Dir[of w _ d]
  by (intro exI[of _ "[Makedirs d]"]) simp

lemma subprocess_run_effect:
  assumes "subprocess_run en cmd w = (r, w')"
  shows "\<exists>code. quiet_step w w' [(cmd, code)]
           \<and> r = (if code = 0 then None else Some (CalledProcessError code))"
proof -
  obtain code outs where f: "ffmpeg en cmd (files w) = (code, outs)"
    by (cases "ffmpeg en cmd (files w)")
  let ?w1 = "log (Ffmpeg cmd code)
               (w\<lparr>files := fold (\<lambda>(p, c). write_file p c) outs (files w)\<rparr>)"
  have w': "w' = ?w1" and r: "r = (if code = 0 then None else Some (CalledProcessError code))"
    using assms by (auto simp: subprocess_run_def f Let_def split: if_splits)
  have "quiet_step w ?w1 [(cmd, code)]"
    unfolding quiet_step_def
    by (intro exI[of _ "[Ffmpeg cmd code]"]) (simp add: world_simps fold_write_file_Dir_iff)
  then show ?thesis using w' r by blast
qed

lemma quiet_process_all_frames:
  assumes "process_all_frames en w = (r, w')"
  shows "quiet_step w w' []"
  using assms
proof (cases rule: process_all_frames_cases)
  case (early evs)
  show ?thesis unfolding quiet_step_def
    using early by (intro exI[of _ "Makedirs ''processed_frames'' # evs"]) auto
next
  case (loop kf kimg w3)
  from process_frames_effect[OF loop(7)] obtain evs where
    ev: "events w' = events w3 @ evs" and fe: "list_all (frame_event kf) evs"
    and dirs: "\<forall>d. lookup (files w') d = Some Dir \<longleftrightarrow> lookup (files w3) d = Some Dir"
    by blast
  have keep: "\<forall>d. lookup (files w) d = Some Dir \<longrightarrow> lookup (files w') d = Some Dir"
    using dirs by (simp add: loop(5) makedirs_keeps_Dir)
  show ?thesis unfolding quiet_step_def
    using ev loop(2) keep frame_events_quiet[OF fe]
    by (intro exI[of _ "[Makedirs ''processed_frames'', Detect kimg] @ evs"])
      (simp add: removals_append ffmpeg_runs_append)
qed

lemma extract_frames_effect:
  assumes "extract_frames en v w = (r, w')"
  shows "(r = Some FileExistsError \<and> quiet_step w w' [])
       \<or> (\<exists>code. quiet_step w w'
              [([''ffmpeg'', ''-i'', v, ''-q:v'', ''2'', ''unprocessed_frames/frame_%04d.png''], code)]
            \<and> lookup (files w') ''unprocessed_frames'' = Some Dir
            \<and> r = (if code = 0 then None else Some (CalledProcessError code)))"
proof -
  let ?u = "''unprocessed_frames''"
  obtain r1 w1 where mk: "makedirs ?u w = (r1, w1)"
    by (cases "makedirs ?u w")
  note q1 = quiet_makedirs[OF mk]
  show ?thesis
  proof (cases r1)
    case (Some e)
    then have "e = FileExistsError"
      using makedirs_fails[of ?u w e] mk by simp
    moreover have "r = Some e" "w' = w1"
      using assms mk Some by (simp_all add: extract_frames_def)
    ultimately show ?thesis using q1 by simp
  next
    case None
    then have run: "subprocess_run en
        [''ffmpeg'', ''-i'', v, ''-q:v'', ''2'', ''unprocessed_frames/frame_%04d.png''] w1 = (r, w')"
      using assms mk by (simp add: extract_frames_def)
    have d1: "lookup (files w1) ?u = Some Dir"
      using makedirs_ok_Dir[of ?u w] mk None by simp
    from subprocess_run_effect[OF run] obtain code where
      q2: "quiet_step w1 w'
         [([''ffmpeg'', ''-i'', v, ''-q:v'', ''2'', ''unprocessed_frames/frame_%04d.png''], code)]"
      and r: "r = (if code = 0 then None else Some (CalledProcessError code))"
      by blast
    have "lookup (files w') ?u = Some Dir"
      using quiet_step_Dir[OF q2 d1] .
    moreover note quiet_step_trans[OF q1 q2]
    ultimately show ?thesis using r by auto
  qed
qed

lemma extract_audio_effect:
  assumes "extract_audio en v w = (r, w')"
  shows "\<exists>code. quiet_step w w'
            [([''ffmpeg'', ''-i'', v, ''-map'', ''0:a'', ''-acodec'', ''copy'', ''audio.aac''], code)]
          \<and> r = (if code = 0 then Inr ''audio.aac'' else Inl (CalledProcessError code))"
proof -
  let ?cmd = "[''ffmpeg'', ''-i'', v, ''-map'', ''0:a'', ''-acodec'', ''copy'', ''audio.aac'']"
  obtain r1 w1 where run: "subprocess_run en ?cmd w = (r1, w1)"
    by (cases "subprocess_run en ?cmd w")
  from subprocess_run_effect[OF run] obtain code where
    q: "quiet_step w w1 [(?cmd, code)]"
    and r1: "r1 = (if code = 0 then None else Some (CalledProcessError code))"
    by blast
  have "w' = w1" "r = (if code = 0 then Inr ''audio.aac'' else Inl (CalledProcessError code))"
    using assms run r1 by (auto simp: extract_audio_def split: if_splits)
  then show ?thesis using q by blast
qed

lemma reconstruct_video_effect:
  assumes "reconstruct_video en fps a out w = (r, w')"
  shows "(r = Some FileExistsError \<and> quiet_step w w' [])
       \<or> (\<exists>code. quiet_step w w'
              [([''ffmpeg'', ''-framerate'', fps, ''-i'', ''processed_frames/frame_%04d.png'',
                 ''-i'', a, ''-c:v'', ''libx264'', ''-pix_fmt'', ''yuv420p'',
                 ''-c:a'', ''copy'', ''-shortest'', out], code)]
            \<and> lookup (files w') ''processed_frames'' = Some Dir
            \<and> r = (if code = 0 then None else Some (CalledProcessError code)))"
proof -
  let ?p = "''processed_frames''"
  let ?cmd = "[''ffmpeg'', ''-framerate'', fps, ''-i'', ''processed_frames/frame_%04d.png'',
                 ''-i'', a, ''-c:v'', ''libx264'', ''-pix_fmt'', ''yuv420p'',
                 ''-c:a'', ''copy'', ''-shortest'', out]"
  obtain r1 w1 where mk: "makedirs ?p w = (r1, w1)"
    by (cases "makedirs ?p w")
  note q1 = quiet_makedirs[OF mk]
  show ?thesis
  proof (cases r1)
    case (Some e)
    then have "e = FileExistsError"
      using makedirs_fails[of ?p w e] mk by simp
    moreover have "r = Some e" "w' = w1"
      using assms mk Some by (simp_all add: reconstruct_video_def)
    ultimately show ?thesis using q1 by simp
  next
    case None
    then have run: "subprocess_run en ?cmd w1 = (r, w')"
      using assms mk by (simp add: reconstruct_video_def)
    have d1: "lookup (files w1) ?p = Some Dir"
      using makedirs_ok_Dir[of ?p w] mk None by simp
    from subprocess_run_effect[OF run] obtain code where
      q2: "quiet_step w1 w' [(?cmd, code)]"
      and r: "r = (if code = 0 then None else Some (CalledProcessError code))"
      by blast
    have "lookup (files w') ?p = Some Dir"
      using quiet_step_Dir[OF q2 d1] .
    moreover note quiet_step_trans[OF q1 q2]
    ultimately show ?thesis using r by auto
  qed
qed

lemma subprocess_run_raises:
  "fst (ffmpeg en cmd (files w)) \<noteq> 0 \<Longrightarrow>
     fst (subprocess_run en cmd w) = Some (CalledProcessError (fst (ffmpeg en cmd (files w))))"
  by (cases "ffmpeg en cmd (files w)") (simp add: subprocess_run_def Let_def)

subsection \<open>Where a conversion can end\<close>

lemma run_conversion_cases:
  assumes "run_conversion en t out w = (r, w')"
  obtains
    (load) e where "r = Some (Loading, e)" "quiet_step w w' []"
  | (frames_dir) "r = Some (Extraction, FileExistsError)" "quiet_step w w' []"
  | (tool) st code runs where "code \<noteq> 0" "r = Some (st, CalledProcessError code)"
      "st = Extraction \<or> st = Reassembly"
      "quiet_step w w' (runs @ [(fst (last (ffmpeg_runs (events w'))), code)])"
      "\<forall>c \<in> set runs. snd c = 0"
      "distinct (map fst (runs @ [(fst (last (ffmpeg_runs (events w'))), code)]))"
      "lookup (files w') ''unprocessed_frames'' = Some Dir"
  | (processing) e runs where "r = Some (Processing, e)" "quiet_step w w' runs"
      "\<forall>c \<in> set runs. snd c = 0" "distinct (map fst runs)"
      "lookup (files w') ''unprocessed_frames'' = Some Dir"
  | (frames_out_dir) runs where "r = Some (Reassembly, FileExistsError)" "quiet_step w w' runs"
      "\<forall>c \<in> set runs. snd c = 0" "distinct (map fst runs)"
      "lookup (files w') ''unprocessed_frames'' = Some Dir"
  | (cleaning) w6 r7 w7 where
      "lookup (files w6) ''unprocessed_frames'' = Some Dir"
      "lookup (files w6) ''processed_frames'' = Some Dir"
      "cleanup en ''audio.aac'' (print ''Cleaning up...'' w6) = (r7, w7)"
      "r = (case r7 of Some e \<Rightarrow> Some (Cleaning, e) | None \<Rightarrow> None)"
      "w' = (case r7 of Some e \<Rightarrow> w7 | None \<Rightarrow> print (''Done! Output saved to '' @ out) w7)"
proof -
  let ?u = "''unprocessed_frames''"
  let ?c1 = "[''ffmpeg'', ''-i'', t, ''-q:v'', ''2'', ''unprocessed_frames/frame_%04d.png'']"
  let ?c2 = "[''ffmpeg'', ''-i'', t, ''-map'', ''0:a'', ''-acodec'', ''copy'', ''audio.aac'']"
  obtain r1 w1 where s1: "initialize_faceanalysis_and_swapper en w = (r1, w1)"
    by (cases "initialize_faceanalysis_and_swapper en w")
  note q1 = quiet_initialize[OF s1]
  show ?thesis
  proof (cases r1)
    case (Some e)
    then have "r = Some (Loading, e)" "w' = w1"
      using assms s1 by (simp_all add: run_conversion_def)
    then show ?thesis using q1 by (intro load) simp_all
  next
    case None
    note r1 = this
    obtain r2 w2 where s2: "extract_frames en t (print ''Extracting frames...'' w1) = (r2, w2)"
      by (cases "extract_frames en t (print ''Extracting frames...'' w1)")
    note q1p = quiet_step_trans[OF q1 quiet_step_print[of w1 "''Extracting frames...''"], simplified]
    from extract_frames_effect[OF s2] consider
      (a) "r2 = Some FileExistsError" "quiet_step (print ''Extracting frames...'' w1) w2 []"
      | (b) code where "quiet_step (print ''Extracting frames...'' w1) w2 [(?c1, code)]"
          "lookup (files w2) ?u = Some Dir"
          "r2 = (if code = 0 then None else Some (CalledProcessError code))"
      by blast
    then show ?thesis
    proof cases
      case a
      then have "r = Some (Extraction, FileExistsError)" "w' = w2"
        using assms s1 r1 s2 by (simp_all add: run_conversion_def)
      then show ?thesis using quiet_step_trans[OF q1p a(2)] by (intro frames_dir) simp_all
    next
      case (b code)
      note q2 = quiet_step_trans[OF q1p b(1), simplified]
      show ?thesis
      proof (cases "code = 0")
        case False
        then have res: "r = Some (Extraction, CalledProcessError code)" "w' = w2"
          using assms s1 r1 s2 b(3) by (simp_all add: run_conversion_def)
        have last: "fst (last (ffmpeg_runs (events w'))) = ?c1"
          using q2 res(2) unfolding quiet_step_def by (auto simp: ffmpeg_runs_append)
        show ?thesis
          using False res q2 b(2) last
          by (intro tool[of code Extraction "[]"]) simp_all
      next
        case True
        note c0 = this
        then have r2: "r2 = None" using b(3) by simp
        obtain r3 w3 where s3: "extract_audio en t (print ''Extracting audio...'' w2) = (r3, w3)"
          by (cases "extract_audio en t (print ''Extracting audio...'' w2)")
        from extract_audio_effect[OF s3] obtain code2 where
          qa: "quiet_step (print ''Extracting audio...'' w2) w3 [(?c2, code2)]" and
          r3: "r3 = (if code2 = 0 then Inr ''audio.aac'' else Inl (CalledProcessError code2))"
          by blast
        note q2p = quiet_step_trans[OF q2 quiet_step_print[of w2 "''Extracting audio...''"],
            simplified]
        note q3 = quiet_step_trans[OF q2p qa, simplified]
        have d2p: "lookup (files (print ''Extracting audio...'' w2)) ?u = Some Dir"
          using b(2) by (simp add: world_simps)
        note d3 = quiet_step_Dir[OF qa d2p]
        show ?thesis
        proof (cases "code2 = 0")
          case False
          then have res: "r = Some (Extraction, CalledProcessError code2)" "w' = w3"
            using assms s1 r1 s2 r2 s3 r3 by (simp_all add: run_conversion_def)
          have last: "fst (last (ffmpeg_runs (events w'))) = ?c2"
            using q3 res(2) unfolding quiet_step_def by (auto simp: ffmpeg_runs_append)
          show ?thesis
            using False res q3 d3 last c0
            by (intro tool[of code2 Extraction "[(?c1, 0)]"]) simp_all
        next
          case True
          note c20 = this
          then have r3': "r3 = Inr ''audio.aac''" using r3 by simp
          obtain r4 w4 where
            s4: "process_all_frames en (print ''Processing frames...'' w3) = (r4, w4)"
            by (cases "process_all_frames en (print ''Processing frames...'' w3)")
          note q3p = quiet_step_trans[OF q3 quiet_step_print[of w3 "''Processing frames...''"],
              simplified]
          note q4 = quiet_step_trans[OF q3p quiet_process_all_frames[OF s4], simplified]
          have d3p: "lookup (files (print ''Processing frames...'' w3)) ?u = Some Dir"
            using d3 by (simp add: world_simps)
          note d4 = quiet_step_Dir[OF quiet_process_all_frames[OF s4] d3p]
          show ?thesis
          proof (cases r4)
            case (Some e)
            then have res: "r = Some (Processing, e)" "w' = w4"
              using assms s1 r1 s2 r2 s3 r3' s4 by (simp_all add: run_conversion_def)
            show ?thesis
              using res q4 d4 c0 c20
              by (intro processing[of e "[(?c1, 0), (?c2, 0)]"]) simp_all
          next
            case None
            note r4 = this
            let ?w5 = "print ''Reconstructing video...'' w4"
            let ?fps = "fps_str en (files ?w5) t"
            let ?c3 = "[''ffmpeg'', ''-framerate'', ?fps, ''-i'', ''processed_frames/frame_%04d.png'',
                 ''-i'', ''audio.aac'', ''-c:v'', ''libx264'', ''-pix_fmt'', ''yuv420p'',
                 ''-c:a'', ''copy'', ''-shortest'', out]"
            obtain r6 w6 where
              s6: "reconstruct_video en ?fps ''audio.aac'' out ?w5 = (r6, w6)"
              by (cases "reconstruct_video en ?fps ''audio.aac'' out ?w5")
            note q4p = quiet_step_trans[OF q4 quiet_step_print[of w4 "''Reconstructing video...''"],
                simplified]
            have d4p: "lookup (files ?w5) ?u = Some Dir"
              using d4 by (simp add: world_simps)
            from reconstruct_video_effect[OF s6] consider
              (a6) "r6 = Some FileExistsError" "quiet_step ?w5 w6 []"
              | (b6) code3 where "quiet_step ?w5 w6 [(?c3, code3)]"
                  "lookup (files w6) ''processed_frames'' = Some Dir"
                  "r6 = (if code3 = 0 then None else Some (CalledProcessError code3))"
              by blast
            then show ?thesis
            proof cases
              case a6
              then have res: "r = Some (Reassembly, FileExistsError)" "w' = w6"
                using assms s1 r1 s2 r2 s3 r3' s4 r4 s6
                by (simp_all add: run_conversion_def Let_def)
              note q6 = quiet_step_trans[OF q4p a6(2), simplified]
              note d6 = quiet_step_Dir[OF a6(2) d4p]
              show ?thesis
                using res q6 d6 c0 c20
                by (intro frames_out_dir[of "[(?c1, 0), (?c2, 0)]"]) simp_all
            next
              case (b6 code3)
              note q6 = quiet_step_trans[OF q4p b6(1), simplified]
              note d6 = quiet_step_Dir[OF b6(1) d4p]
              show ?thesis
              proof (cases "code3 = 0")
                case False
                then have res: "r = Some (Reassembly, CalledProcessError code3)" "w' = w6"
                  using assms s1 r1 s2 r2 s3 r3' s4 r4 s6 b6(3)
                  by (simp_all add: run_conversion_def Let_def)
                have last: "fst (last (ffmpeg_runs (events w'))) = ?c3"
                  using q6 res(2) unfolding quiet_step_def by (auto simp: ffmpeg_runs_append)
                show ?thesis
                  using False res q6 d6 last c0 c20
                  by (intro tool[of code3 Reassembly "[(?c1, 0), (?c2, 0)]"]) simp_all
              next
                case True
                then have r6: "r6 = None" using b6(3) by simp
                obtain r7 w7 where
                  s7: "cleanup en ''audio.aac'' (print ''Cleaning up...'' w6) = (r7, w7)"
                  by (cases "cleanup en ''audio.aac'' (print ''Cleaning up...'' w6)")
                have res: "r = (case r7 of Some e \<Rightarrow> Some (Cleaning, e) | None \<Rightarrow> None)"
                  "w' = (case r7 of Some e \<Rightarrow> w7
                         | None \<Rightarrow> print (''Done! Output saved to '' @ out) w7)"
                  using assms s1 r1 s2 r2 s3 r3' s4 r4 s6 r6 s7
                  by (simp_all add: run_conversion_def Let_def split: option.splits)
                show ?thesis
                  using d6 b6(2) s7 res by (intro cleaning[of w6 r7 w7]) simp_all
              qed
            qed
          qed
        qed
      qed
    qed
  qed
qed

subsection \<open>Removal\<close>

lemma lookup_filter:
  "lookup (filter (\<lambda>(q, _). P q) fsys) x = (if P x then lookup fsys x else None)"
  unfolding lookup_def by (induction fsys) auto

lemma lookup_rmtree_fs_other:
  "\<not> under d q \<Longrightarrow> lookup (rmtree_fs keeps d fsys) q = lookup fsys q"
  by (simp add: rmtree_fs_def lookup_filter)

lemma lookup_rmtree_fs_under:
  "lookup fsys d = Some Dir \<Longrightarrow> under d q \<Longrightarrow> \<forall>p. \<not> keeps p
     \<Longrightarrow> lookup (rmtree_fs keeps d fsys) q = None"
  by (simp add: rmtree_fs_def lookup_filter list_ex_iff)

lemma lookup_rmtree_fs_absent:
  "lookup fsys q = None \<Longrightarrow> lookup (rmtree_fs keeps d fsys) q = None"
  by (simp add: rmtree_fs_def lookup_filter)

lemma lookup_remove_fs: "lookup (remove_fs p fsys) q = (if q = p then None else lookup fsys q)"
  unfolding remove_fs_def using lookup_filter[of "\<lambda>q. q \<noteq> p" fsys q] by simp

lemma processed_not_under_unprocessed: "\<not> under ''unprocessed_frames'' ''processed_frames''"
  by (simp add: under_def startswith_def)

lemma cleanup_frame:
  assumes "\<not> under ''unprocessed_frames'' q" "\<not> under ''processed_frames'' q" "q \<noteq> a"
  shows "lookup (files (snd (cleanup en a w))) q = lookup (files w) q"
  using assms
  by (simp add: cleanup_def Let_def rmtree_def os_remove_def world_simps lookup_rmtree_fs_other
      lookup_remove_fs split: option.splits node.splits)

lemma cleanup_removals:
  "removals (new_events w (snd (cleanup en a w))) = [''unprocessed_frames'', ''processed_frames'']
   \<or> removals (new_events w (snd (cleanup en a w)))
        = [''unprocessed_frames'', ''processed_frames'', a]"
  by (simp add: cleanup_def Let_def rmtree_def os_remove_def world_simps new_events_def
      split: option.splits node.splits)

lemma cleanup_clears:
  assumes u: "lookup (files w) ''unprocessed_frames'' = Some Dir"
    and p: "lookup (files w) ''processed_frames'' = Some Dir"
    and ok: "cleanup en a w = (None, w')"
    and q: "under ''unprocessed_frames'' q \<or> under ''processed_frames'' q \<or> q = a"
    and removable: "\<forall>fsys x. \<not> rmtree_keeps en ''unprocessed_frames'' fsys x
                     \<and> \<not> rmtree_keeps en ''processed_frames'' fsys x"
  shows "lookup (files w') q = None"
proof -
  let ?f1 = "rmtree_fs (rmtree_keeps en ''unprocessed_frames'' (files w))
               ''unprocessed_frames'' (files w)"
  let ?f2 = "rmtree_fs (rmtree_keeps en ''processed_frames'' ?f1) ''processed_frames'' ?f1"
  have p1: "lookup ?f1 ''processed_frames'' = Some Dir"
    using p by (simp add: lookup_rmtree_fs_other processed_not_under_unprocessed)
  have gone: "lookup ?f2 q = None" if "under ''unprocessed_frames'' q \<or> under ''processed_frames'' q"
  proof (cases "under ''processed_frames'' q")
    case True
    show ?thesis
      using p1 True removable by (intro lookup_rmtree_fs_under) simp_all
  next
    case False
    then have "under ''unprocessed_frames'' q" using that by blast
    then have "lookup ?f1 q = None"
      using u removable by (intro lookup_rmtree_fs_under) simp_all
    then show ?thesis by (rule lookup_rmtree_fs_absent)
  qed
  have files': "files w' = ?f2 \<or> files w' = remove_fs a ?f2"
    using ok
    by (auto simp: cleanup_def Let_def rmtree_def os_remove_def world_simps
        split: option.splits node.splits if_splits)
  have a_gone: "lookup (files w') a = None"
    using ok
    by (auto simp: cleanup_def Let_def rmtree_def os_remove_def world_simps os_path_exists_def
        lookup_remove_fs split: option.splits node.splits if_splits)
  show ?thesis
  proof (cases "q = a")
    case True
    then show ?thesis using a_gone by simp
  next
    case False
    then have "lookup ?f2 q = None" using q gone by blast
    then show ?thesis using files' by (auto simp: lookup_remove_fs)
  qed
qed

subsection \<open>Sample conversions, evaluated\<close>

lemma silent_conversion:
  "run_conversion silent_env ''in.mp4'' ''out.mp4'' initial_world =
   (Some (Extraction, CalledProcessError 1),
    \<lparr>files =
       [(''unprocessed_frames/frame_0002.png'', File (Image 11)),
        (''unprocessed_frames/frame_0001.png'', File (Image 10)),
        (''unprocessed_frames'', Dir), (''in.mp4'', File (Blob 1)),
        (''kirks'', Dir), (''kirks/kirk_0.jpg'', File (Image 100)),
        (''kirks/kirk_1.jpg'', File (Image 101)),
        (''kirks/kirk_2.jpg'', File (Image 102))],
     printed = [''Extracting frames...'', ''Extracting audio...''],
     events =
       [LoadModels, Makedirs ''unprocessed_frames'',
        Ffmpeg [''ffmpeg'', ''-i'', ''in.mp4'', ''-q:v'', ''2'',
                ''unprocessed_frames/frame_%04d.png''] 0,
        Ffmpeg [''ffmpeg'', ''-i'', ''in.mp4'', ''-map'', ''0:a'', ''-acodec'',
                ''copy'', ''audio.aac''] 1],
     draws = 0\<rparr>)"
  by (simp add: eval_defs silent_env_def)

lemma sample_conversion:
  "main sample_env [''script.py'', ''in.mp4'', ''out.mp4''] initial_world =
   (0,
    \<lparr>files =
       [(''out.mp4'', File (Blob 3)), (''in.mp4'', File (Blob 1)),
        (''kirks'', Dir), (''kirks/kirk_0.jpg'', File (Image 100)),
        (''kirks/kirk_1.jpg'', File (Image 101)),
        (''kirks/kirk_2.jpg'', File (Image 102))],
     printed =
       [''Extracting frames...'', ''Extracting audio...'',
        ''Processing frames...'', ''Reconstructing video...'',
        ''Cleaning up...'', ''Done! Output saved to out.mp4''],
     events =
       [LoadModels, Makedirs ''unprocessed_frames'',
        Ffmpeg [''ffmpeg'', ''-i'', ''in.mp4'', ''-q:v'', ''2'',
                ''unprocessed_frames/frame_%04d.png''] 0,
        Ffmpeg [''ffmpeg'', ''-i'', ''in.mp4'', ''-map'', ''0:a'', ''-acodec'',
                ''copy'', ''audio.aac''] 0,
        Makedirs ''processed_frames'', Detect 101, Detect 10, Swap 10 1 101,
        Swap 112 2 101, Imwrite ''processed_frames/frame_0001.png'' 215,
        Detect 11, Imwrite ''processed_frames/frame_0002.png'' 11,
        Makedirs ''processed_frames'',
        Ffmpeg [''ffmpeg'', ''-framerate'', ''25.0'', ''-i'',
                ''processed_frames/frame_%04d.png'', ''-i'', ''audio.aac'',
                ''-c:v'', ''libx264'', ''-pix_fmt'', ''yuv420p'', ''-c:a'',
                ''copy'', ''-shortest'', ''out.mp4''] 0,
        Rmtree ''unprocessed_frames'', Rmtree ''processed_frames'',
        Remove ''audio.aac''],
     draws = 1\<rparr>)"
  by (simp add: eval_defs)

subsection \<open>One pipeline run per conversion\<close>

lemma calm_step_refl: "calm_step w w"
  by (simp add: calm_step_def)

lemma calm_step_trans: "calm_step w w1 \<Longrightarrow> calm_step w1 w2 \<Longrightarrow> calm_step w w2"
proof -
  assume "calm_step w w1" "calm_step w1 w2"
  then obtain e1 e2 where
    "events w1 = events w @ e1" "swap_calls e1 = []" "draws w1 = draws w"
    "events w2 = events w1 @ e2" "swap_calls e2 = []" "draws w2 = draws w1"
    unfolding calm_step_def by blast
  then show ?thesis
    unfolding calm_step_def by (intro conjI exI[of _ "e1 @ e2"]) (simp_all add: swap_calls_append)
qed

lemma calm_step_print: "calm_step w (print s w)"
  unfolding calm_step_def by (intro conjI exI[of _ "[]"]) (simp_all add: world_simps)

lemma calm_initialize:
  "initialize_faceanalysis_and_swapper en w = (r, w') \<Longrightarrow> calm_step w w'"
  unfolding calm_step_def
  by (intro conjI exI[of _ "[LoadModels]"])
    (auto simp: initialize_faceanalysis_and_swapper_def world_simps split: if_splits)

lemma calm_makedirs: "makedirs d w = (r, w') \<Longrightarrow> calm_step w w'"
  unfolding calm_step_def
  using makedirs_events[of d w] makedirs_draws[of d w]
  by (intro conjI exI[of _ "[Makedirs d]"]) simp_all

lemma calm_subprocess_run: "subprocess_run en cmd w = (r, w') \<Longrightarrow> calm_step w w'"
proof -
  assume a: "subprocess_run en cmd w = (r, w')"
  obtain code outs where f: "ffmpeg en cmd (files w) = (code, outs)"
    by (cases "ffmpeg en cmd (files w)")
  have "w' = log (Ffmpeg cmd code)
               (w\<lparr>files := fold (\<lambda>(p, c). write_file p c) outs (files w)\<rparr>)"
    using a by (auto simp: subprocess_run_def f Let_def split: if_splits)
  then show ?thesis
    unfolding calm_step_def
    by (intro conjI exI[of _ "[Ffmpeg cmd code]"]) (simp_all add: world_simps)
qed

lemma calm_extract_frames: "extract_frames en v w = (r, w') \<Longrightarrow> calm_step w w'"
proof -
  assume a: "extract_frames en v w = (r, w')"
  obtain r1 w1 where mk: "makedirs ''unprocessed_frames'' w = (r1, w1)"
    by (cases "makedirs ''unprocessed_frames'' w")
  show ?thesis
  proof (cases r1)
    case (Some e)
    then have "w' = w1" using a mk by (simp add: extract_frames_def)
    then show ?thesis using calm_makedirs[OF mk] by simp
  next
    case None
    then have "subprocess_run en
        [''ffmpeg'', ''-i'', v, ''-q:v'', ''2'', ''unprocessed_frames/frame_%04d.png''] w1 = (r, w')"
      using a mk by (simp add: extract_frames_def)
    then show ?thesis using calm_makedirs[OF mk] calm_subprocess_run calm_step_trans by blast
  qed
qed

lemma calm_extract_audio: "extract_audio en v w = (r, w') \<Longrightarrow> calm_step w w'"
proof -
  assume a: "extract_audio en v w = (r, w')"
  let ?cmd = "[''ffmpeg'', ''-i'', v, ''-map'', ''0:a'', ''-acodec'', ''copy'', ''audio.aac'']"
  obtain r1 w1 where run: "subprocess_run en ?cmd w = (r1, w1)"
    by (cases "subprocess_run en ?cmd w")
  have "w' = w1" using a run by (cases r1) (simp_all add: extract_audio_def)
  then show ?thesis using calm_subprocess_run[OF run] by simp
qed

lemma calm_reconstruct_video: "reconstruct_video en fps a out w = (r, w') \<Longrightarrow> calm_step w w'"
proof -
  assume a: "reconstruct_video en fps a out w = (r, w')"
  obtain r1 w1 where mk: "makedirs ''processed_frames'' w = (r1, w1)"
    by (cases "makedirs ''processed_frames'' w")
  show ?thesis
  proof (cases r1)
    case (Some e)
    then have "w' = w1" using a mk by (simp add: reconstruct_video_def)
    then show ?thesis using calm_makedirs[OF mk] by simp
  next
    case None
    then have "\<exists>cmd. subprocess_run en cmd w1 = (r, w')"
      using a mk by (auto simp: reconstruct_video_def)
    then show ?thesis using calm_makedirs[OF mk] calm_subprocess_run calm_step_trans by blast
  qed
qed

lemma calm_cleanup: "cleanup en a w = (r, w') \<Longrightarrow> calm_step w w'"
proof -
  assume a: "cleanup en a w = (r, w')"
  let ?w2 = "rmtree en ''processed_frames'' (rmtree en ''unprocessed_frames'' w)"
  have c2: "calm_step w ?w2"
    unfolding calm_step_def
    by (intro conjI exI[of _ "[Rmtree ''unprocessed_frames'', Rmtree ''processed_frames'']"])
      (simp_all add: rmtree_def world_simps)
  have "w' = ?w2 \<or> calm_step ?w2 w'"
  proof (cases "os_path_exists (files ?w2) a")
    case False
    then show ?thesis using a by (simp add: cleanup_def Let_def)
  next
    case True
    then have "os_remove a ?w2 = (r, w')" using a by (simp add: cleanup_def Let_def)
    then have "calm_step ?w2 w'"
      unfolding calm_step_def
      by (intro conjI exI[of _ "[Remove a]"])
        (auto simp: os_remove_def world_simps split: option.splits node.splits)
    then show ?thesis ..
  qed
  then show ?thesis using c2 calm_step_trans by blast
qed

lemma run_conversion_around_pipeline:
  assumes "run_conversion en t out w = (r, w')"
  shows "calm_step w w'
       \<or> (\<exists>w3 r4 w4. calm_step w w3 \<and> process_all_frames en w3 = (r4, w4) \<and> calm_step w4 w')"
proof -
  obtain r1 w1 where s1: "initialize_faceanalysis_and_swapper en w = (r1, w1)"
    by (cases "initialize_faceanalysis_and_swapper en w")
  note k1 = calm_initialize[OF s1]
  show ?thesis
  proof (cases r1)
    case (Some e)
    then have "w' = w1" using assms s1 by (simp add: run_conversion_def)
    then show ?thesis using k1 by simp
  next
    case None
    note r1 = this
    obtain r2 w2 where s2: "extract_frames en t (print ''Extracting frames...'' w1) = (r2, w2)"
      by (cases "extract_frames en t (print ''Extracting frames...'' w1)")
    note k2 = calm_step_trans[OF calm_step_trans[OF k1 calm_step_print] calm_extract_frames[OF s2]]
    show ?thesis
    proof (cases r2)
      case (Some e)
      then have "w' = w2" using assms s1 r1 s2 by (simp add: run_conversion_def)
      then show ?thesis using k2 by simp
    next
      case None
      note r2 = this
      obtain r3 w3 where s3: "extract_audio en t (print ''Extracting audio...'' w2) = (r3, w3)"
        by (cases "extract_audio en t (print ''Extracting audio...'' w2)")
      note k3 = calm_step_trans[OF calm_step_trans[OF k2 calm_step_print] calm_extract_audio[OF s3]]
      show ?thesis
      proof (cases r3)
        case (Inl e)
        then have "w' = w3" using assms s1 r1 s2 r2 s3 by (simp add: run_conversion_def)
        then show ?thesis using k3 by simp
      next
        case (Inr audio_path)
        note r3 = this
        let ?w3p = "print ''Processing frames...'' w3"
        obtain r4 w4 where s4: "process_all_frames en ?w3p = (r4, w4)"
          by (cases "process_all_frames en ?w3p")
        note k3p = calm_step_trans[OF k3 calm_step_print[of w3 "''Processing frames...''"]]
        have after: "calm_step w4 w'"
        proof (cases r4)
          case (Some e)
          then have "w' = w4" using assms s1 r1 s2 r2 s3 r3 s4 by (simp add: run_conversion_def)
          then show ?thesis by (simp add: calm_step_refl)
        next
          case None
          note r4 = this
          let ?w5 = "print ''Reconstructing video...'' w4"
          obtain r6 w6 where s6: "reconstruct_video en (fps_str en (files ?w5) t)
              audio_path out ?w5 = (r6, w6)"
            by (cases "reconstruct_video en (fps_str en (files ?w5) t) audio_path out ?w5")
          note k6 = calm_step_trans[OF calm_step_print calm_reconstruct_video[OF s6]]
          show ?thesis
          proof (cases r6)
            case (Some e)
            then have "w' = w6"
              using assms s1 r1 s2 r2 s3 r3 s4 r4 s6 by (simp add: run_conversion_def Let_def)
            then show ?thesis using k6 by simp
          next
            case None
            note r6 = this
            obtain r7 w7 where s7: "cleanup en audio_path (print ''Cleaning up...'' w6) = (r7, w7)"
              by (cases "cleanup en audio_path (print ''Cleaning up...'' w6)")
            note k7 = calm_step_trans[OF k6 calm_step_trans[OF calm_step_print calm_cleanup[OF s7]]]
            have "w' = w7 \<or> w' = print (''Done! Output saved to '' @ out) w7"
              using assms s1 r1 s2 r2 s3 r3 s4 r4 s6 r6 s7
              by (cases r7) (simp_all add: run_conversion_def Let_def)
            then show ?thesis using k7 calm_step_trans[OF k7 calm_step_print] by blast
          qed
        qed
        show ?thesis using k3p s4 after by blast
      qed
    qed
  qed
qed

lemma main_around_pipeline:
  "calm_step w (snd (main en argv w))
   \<or> (\<exists>w3 r4 w4. calm_step w w3 \<and> process_all_frames en w3 = (r4, w4)
         \<and> calm_step w4 (snd (main en argv w)))"
proof (cases "1 < length argv \<and> argv ! 1 = ''init''")
  case True
  obtain r1 w1 where s1: "initialize_faceanalysis_and_swapper en w = (r1, w1)"
    by (cases "initialize_faceanalysis_and_swapper en w")
  have "snd (main en argv w) = w1 \<or> snd (main en argv w) = print ''initialized!!'' w1"
    using True s1 by (cases r1) (simp_all add: main_def)
  then show ?thesis
    using calm_initialize[OF s1] calm_step_trans[OF calm_initialize[OF s1] calm_step_print]
    by metis
next
  case False
  then have ni: "(1 < length argv \<and> argv ! 1 = ''init'') = False" by blast
  show ?thesis
  proof (cases "length argv \<noteq> 3 \<or> \<not> path_exists (files w) (argv ! 1)")
    case True
    then have "\<exists>s. snd (main en argv w) = print s w"
      unfolding main_def ni if_False by (auto simp: Let_def)
    then show ?thesis using calm_step_print by metis
  next
    case False
    obtain r w' where rc: "run_conversion en (argv ! 1) (argv ! 2) w = (r, w')"
      by (cases "run_conversion en (argv ! 1) (argv ! 2) w")
    have "snd (main en argv w) = w'"
      using False rc unfolding main_def ni if_False by (cases r) (simp_all add: Let_def)
    then show ?thesis using run_conversion_around_pipeline[OF rc] by simp
  qed
qed

lemma pipeline_reference:
  assumes "process_all_frames en w = (r, w')"
  shows "draws w' \<le> Suc (draws w)
       \<and> (r = None \<longrightarrow> draws w' = Suc (draws w))
       \<and> (\<exists>evs. events w' = events w @ evs
             \<and> (\<forall>c \<in> set (swap_calls evs). reference_face en w = Some (snd (snd c))))"
  using assms
proof (cases rule: process_all_frames_cases)
  case (early evs)
  have "swap_calls (Makedirs ''processed_frames'' # evs) = []"
    using early(3) by auto
  then have "\<exists>evs. events w' = events w @ evs
      \<and> (\<forall>c \<in> set (swap_calls evs). reference_face en w = Some (snd (snd c)))"
    using early(2) by (intro exI[of _ "Makedirs ''processed_frames'' # evs"]) simp
  then show ?thesis using early(1) early(4) by auto
next
  case (loop kf kimg w3)
  from process_frames_effect[OF loop(7)] obtain evs where
    ev: "events w' = events w3 @ evs" and fe: "list_all (frame_event kf) evs"
    and dr: "draws w' = draws w3"
    by blast
  have "events w' = events w @ ([Makedirs ''processed_frames'', Detect kimg] @ evs)"
    using ev loop(2) by simp
  moreover have "\<forall>c \<in> set (swap_calls ([Makedirs ''processed_frames'', Detect kimg] @ evs)).
      reference_face en w = Some (snd (snd c))"
    using frame_events_reference[OF fe] loop(1) by simp
  ultimately have "\<exists>evs. events w' = events w @ evs
      \<and> (\<forall>c \<in> set (swap_calls evs). reference_face en w = Some (snd (snd c)))"
    by blast
  then show ?thesis using dr loop(3) by simp
qed

lemma main_one_reference:
  "draws (snd (main en argv w)) \<le> Suc (draws w)
   \<and> (\<exists>k. \<forall>c \<in> set (swap_calls (new_events w (snd (main en argv w)))). snd (snd c) = k)"
proof -
  let ?W = "snd (main en argv w)"
  from main_around_pipeline[of w en argv] consider
    (calm) "calm_step w ?W"
    | (pipeline) w3 r4 w4 where "calm_step w w3" "process_all_frames en w3 = (r4, w4)"
        "calm_step w4 ?W"
    by blast
  then show ?thesis
  proof cases
    case calm
    then obtain evs where "events ?W = events w @ evs" "swap_calls evs = []" "draws ?W = draws w"
      unfolding calm_step_def by blast
    then show ?thesis by (simp add: new_events_append)
  next
    case (pipeline w3 r4 w4)
    from pipeline(1) obtain e1 where
      1: "events w3 = events w @ e1" "swap_calls e1 = []" "draws w3 = draws w"
      unfolding calm_step_def by blast
    from pipeline(3) obtain e2 where
      2: "events ?W = events w4 @ e2" "swap_calls e2 = []" "draws ?W = draws w4"
      unfolding calm_step_def by blast
    from pipeline_reference[OF pipeline(2)] obtain evs where
      d: "draws w4 \<le> Suc (draws w3)" and
      ev: "events w4 = events w3 @ evs" and
      ref: "\<forall>c \<in> set (swap_calls evs). reference_face en w3 = Some (snd (snd c))"
      by blast
    have "events ?W = events w @ (e1 @ evs @ e2)"
      using 1(1) 2(1) ev by simp
    then have "new_events w ?W = e1 @ evs @ e2"
      by (rule new_events_append)
    then have calls: "swap_calls (new_events w ?W) = swap_calls evs"
      using 1(2) 2(2) by (simp add: swap_calls_append)
    have "\<exists>k. \<forall>c \<in> set (swap_calls evs). snd (snd c) = k"
    proof (cases "reference_face en w3")
      case None
      have "c \<notin> set (swap_calls evs)" for c
      proof
        assume "c \<in> set (swap_calls evs)"
        then have "reference_face en w3 = Some (snd (snd c))"
          by (rule bspec[OF ref])
        then show False using None by simp
      qed
      then have "swap_calls evs = []"
        by (cases "swap_calls evs") auto
      then show ?thesis by simp
    next
      case (Some k)
      then show ?thesis using ref by (intro exI[of _ k]) simp
    qed
    then show ?thesis using calls d 1(3) 2(3) by simp
  qed
qed

subsection \<open>The images of the swap loop\<close>


subsection \<open>A step that fails\<close>

lemma extract_frames_raises:
  "fst (makedirs ''unprocessed_frames'' w) = None \<Longrightarrow>
   fst (ffmpeg en [''ffmpeg'', ''-i'', v, ''-q:v'', ''2'', ''unprocessed_frames/frame_%04d.png'']
         (files (snd (makedirs ''unprocessed_frames'' w)))) \<noteq> 0 \<Longrightarrow>
   fst (extract_frames en v w)
     = Some (CalledProcessError
         (fst (ffmpeg en [''ffmpeg'', ''-i'', v, ''-q:v'', ''2'', ''unprocessed_frames/frame_%04d.png'']
                (files (snd (makedirs ''unprocessed_frames'' w))))))"
proof -
  assume a: "fst (makedirs ''unprocessed_frames'' w) = None"
    and b: "fst (ffmpeg en [''ffmpeg'', ''-i'', v, ''-q:v'', ''2'', ''unprocessed_frames/frame_%04d.png'']
         (files (snd (makedirs ''unprocessed_frames'' w)))) \<noteq> 0"
  obtain w1 where mk: "makedirs ''unprocessed_frames'' w = (None, w1)"
    using a by (cases "makedirs ''unprocessed_frames'' w") simp
  show ?thesis
    using subprocess_run_raises[of en _ w1] b
    by (simp add: extract_frames_def mk)
qed

lemma extract_audio_raises:
  "fst (ffmpeg en [''ffmpeg'', ''-i'', v, ''-map'', ''0:a'', ''-acodec'', ''copy'', ''audio.aac'']
         (files w)) \<noteq> 0 \<Longrightarrow>
   fst (extract_audio en v w)
     = Inl (CalledProcessError
         (fst (ffmpeg en [''ffmpeg'', ''-i'', v, ''-map'', ''0:a'', ''-acodec'', ''copy'', ''audio.aac'']
                (files w))))"
proof -
  let ?cmd = "[''ffmpeg'', ''-i'', v, ''-map'', ''0:a'', ''-acodec'', ''copy'', ''audio.aac'']"
  assume b: "fst (ffmpeg en ?cmd (files w)) \<noteq> 0"
  obtain r1 w1 where run: "subprocess_run en ?cmd w = (r1, w1)"
    by (cases "subprocess_run en ?cmd w")
  have "r1 = Some (CalledProcessError (fst (ffmpeg en ?cmd (files w))))"
    using subprocess_run_raises[OF b] run by simp
  then show ?thesis
    by (simp add: extract_audio_def run)
qed

lemma reconstruct_video_raises:
  "fst (makedirs ''processed_frames'' w) = None \<Longrightarrow>
   fst (ffmpeg en [''ffmpeg'', ''-framerate'', fps, ''-i'', ''processed_frames/frame_%04d.png'',
                 ''-i'', a, ''-c:v'', ''libx264'', ''-pix_fmt'', ''yuv420p'',
                 ''-c:a'', ''copy'', ''-shortest'', out]
         (files (snd (makedirs ''processed_frames'' w)))) \<noteq> 0 \<Longrightarrow>
   fst (reconstruct_video en fps a out w)
     = Some (CalledProcessError
         (fst (ffmpeg en [''ffmpeg'', ''-framerate'', fps, ''-i'', ''processed_frames/frame_%04d.png'',
                 ''-i'', a, ''-c:v'', ''libx264'', ''-pix_fmt'', ''yuv420p'',
                 ''-c:a'', ''copy'', ''-shortest'', out]
                (files (snd (makedirs ''processed_frames'' w))))))"
proof -
  assume a: "fst (makedirs ''processed_frames'' w) = None"
    and b: "fst (ffmpeg en [''ffmpeg'', ''-framerate'', fps, ''-i'', ''processed_frames/frame_%04d.png'',
                 ''-i'', a, ''-c:v'', ''libx264'', ''-pix_fmt'', ''yuv420p'',
                 ''-c:a'', ''copy'', ''-shortest'', out]
         (files (snd (makedirs ''processed_frames'' w)))) \<noteq> 0"
  obtain w1 where mk: "makedirs ''processed_frames'' w = (None, w1)"
    using a by (cases "makedirs ''processed_frames'' w") simp
  show ?thesis
    using subprocess_run_raises[of en _ w1] b
    by (simp add: reconstruct_video_def mk)
qed

lemma extract_frames_error_kind:
  assumes "extract_frames en v w = (Some e, w')"
    and "fst (makedirs ''unprocessed_frames'' w) = None"
  shows "e \<noteq> FileExistsError"
proof -
  from extract_frames_effect[OF assms(1)] consider
    (a) "quiet_step w w' []"
    | (b) code where "Some e = (if code = 0 then None else Some (CalledProcessError code))"
    by blast
  then show ?thesis
  proof cases
    case a
    obtain w1 where mk: "makedirs ''unprocessed_frames'' w = (None, w1)"
      using assms(2) by (cases "makedirs ''unprocessed_frames'' w") simp
    then have run: "subprocess_run en
        [''ffmpeg'', ''-i'', v, ''-q:v'', ''2'', ''unprocessed_frames/frame_%04d.png''] w1
        = (Some e, w')"
      using assms(1) by (simp add: extract_frames_def)
    from subprocess_run_effect[OF run] show ?thesis
      by (auto split: if_splits)
  next
    case (b code)
    then show ?thesis by (auto split: if_splits)
  qed
qed

lemma aborted_run_facts:
  assumes "run_conversion en target output w = (Some (st, e), w')"
    and "st = Extraction \<or> st = Processing \<or> st = Reassembly"
  shows "removals (new_events w w') = []
       \<and> distinct (map fst (ffmpeg_runs (new_events w w')))
       \<and> (\<forall>c \<in> set (butlast (ffmpeg_runs (new_events w w'))). snd c = 0)
       \<and> (\<not> (st = Extraction \<and> e = FileExistsError)
            \<longrightarrow> lookup (files w') ''unprocessed_frames'' = Some Dir)"
  using assms(1)
proof (cases rule: run_conversion_cases)
  case (load e)
  then show ?thesis using assms(2) by simp
next
  case frames_dir
  then show ?thesis using quiet_step_new_events[OF frames_dir(2)] by simp
next
  case (tool st' code runs)
  then show ?thesis using quiet_step_new_events[OF tool(4)] by simp
next
  case (processing e' runs)
  then show ?thesis using quiet_step_new_events[OF processing(2)]
    by (auto dest: in_set_butlastD)
next
  case (frames_out_dir runs)
  then show ?thesis using quiet_step_new_events[OF frames_out_dir(2)]
    by (auto dest: in_set_butlastD)
next
  case (cleaning w6 r7 w7)
  then show ?thesis using assms(2) by (cases r7) simp_all
qed

lemma failing_step_ends_run:
  assumes "initialize_faceanalysis_and_swapper en w = (None, w1)"
    and "extract_frames en target (print ''Extracting frames...'' w1) = (Some e, w')
       \<or> (extract_frames en target (print ''Extracting frames...'' w1) = (None, w2)
          \<and> extract_audio en target (print ''Extracting audio...'' w2) = (Inl e, w'))
       \<or> (extract_frames en target (print ''Extracting frames...'' w1) = (None, w2)
          \<and> extract_audio en target (print ''Extracting audio...'' w2) = (Inr a, w3)
          \<and> process_all_frames en (print ''Processing frames...'' w3) = (Some e, w'))
       \<or> (extract_frames en target (print ''Extracting frames...'' w1) = (None, w2)
          \<and> extract_audio en target (print ''Extracting audio...'' w2) = (Inr a, w3)
          \<and> process_all_frames en (print ''Processing frames...'' w3) = (None, w4)
          \<and> reconstruct_video en
               (fps_str en (files (print ''Reconstructing video...'' w4)) target) a output
               (print ''Reconstructing video...'' w4) = (Some e, w'))"
  obtains st where "run_conversion en target output w = (Some (st, e), w')"
    and "st = Extraction \<or> st = Processing \<or> st = Reassembly"
    and "fst (makedirs ''unprocessed_frames'' (print ''Extracting frames...'' w1)) = None
           \<Longrightarrow> \<not> (st = Extraction \<and> e = FileExistsError)"
proof -
  let ?x1 = "extract_frames en target (print ''Extracting frames...'' w1)"
  from assms(2) consider
      (f1) "?x1 = (Some e, w')"
    | (f2) "?x1 = (None, w2)"
        "extract_audio en target (print ''Extracting audio...'' w2) = (Inl e, w')"
    | (f3) "?x1 = (None, w2)"
        "extract_audio en target (print ''Extracting audio...'' w2) = (Inr a, w3)"
        "process_all_frames en (print ''Processing frames...'' w3) = (Some e, w')"
    | (f4) "?x1 = (None, w2)"
        "extract_audio en target (print ''Extracting audio...'' w2) = (Inr a, w3)"
        "process_all_frames en (print ''Processing frames...'' w3) = (None, w4)"
        "reconstruct_video en
             (fps_str en (files (print ''Reconstructing video...'' w4)) target) a output
             (print ''Reconstructing video...'' w4) = (Some e, w')"
    by (elim disjE conjE)
  then show ?thesis
  proof cases
    case f1
    have r: "run_conversion en target output w = (Some (Extraction, e), w')"
      by (simp add: run_conversion_def assms(1) f1)
    have k: "e \<noteq> FileExistsError"
      if "fst (makedirs ''unprocessed_frames'' (print ''Extracting frames...'' w1)) = None"
      using extract_frames_error_kind[OF f1 that] .
    show ?thesis
      using k by (intro that[OF r]) simp_all
  next
    case f2
    have r: "run_conversion en target output w = (Some (Extraction, e), w')"
      by (simp add: run_conversion_def assms(1) f2)
    have k: "e \<noteq> FileExistsError"
      using extract_audio_effect[OF f2(2)] by (auto split: if_splits)
    show ?thesis
      using k by (intro that[OF r]) simp_all
  next
    case f3
    have r: "run_conversion en target output w = (Some (Processing, e), w')"
      by (simp add: run_conversion_def assms(1) f3)
    show ?thesis
      by (intro that[OF r]) simp_all
  next
    case f4
    have r: "run_conversion en target output w = (Some (Reassembly, e), w')"
      by (simp add: run_conversion_def assms(1) f4 Let_def)
    show ?thesis
      by (intro that[OF r]) simp_all
  qed
qed

subsection \<open>A removal that is refused\<close>

lemma rmtree_fs_keeps_all: "\<forall>p. keeps p \<Longrightarrow> rmtree_fs keeps d fsys = fsys"
proof -
  assume all: "\<forall>p. keeps p"
  have "list_ex (\<lambda>p. keeps p \<and> under q p) (map fst fsys)" if "(q, n) \<in> set fsys" for q n
    unfolding list_ex_iff using that all by (intro bexI[of _ q]) (force simp: under_def)+
  then show ?thesis
    by (auto simp: rmtree_fs_def filter_id_conv)
qed

section \<open>Face Transform: the claims\<close>



text \<open>
  C3. When detection finds no face in a frame, \<^verbatim>\<open>kirkify_frame\<close> swaps nothing and
  writes the pixels it read, unmodified, to the output path: the call returns normally,
  the only calls it makes are the detection and one \<^verbatim>\<open>imwrite\<close> of the input image,
  and (the output location being writable) reading the output file back gives the same
  image as reading the input frame.
\<close>

theorem kirkify_frame_no_faces_unchanged:
  assumes "imread (files w) frame_path = Some img"
    and "face_get en img = Some []"
    and "is_dir (files w) (dirname output_path)"
    and "lookup (files w) output_path \<noteq> Some Dir"
  shows "kirkify_frame en frame_path output_path kirk_face w =
           (None, imwrite output_path img (log (Detect img) w))
       \<and> new_events w (snd (kirkify_frame en frame_path output_path kirk_face w)) =
           [Detect img, Imwrite output_path img]
       \<and> imread (files (snd (kirkify_frame en frame_path output_path kirk_face w))) output_path
           = imread (files w) frame_path"
  using assms
  by (simp add: kirkify_frame_def detect_def imwrite_def log_def imread_write_file
      new_events_def)

theorem kirkify_frame_no_faces_unchanged_witness:
  "imread (files frames_world) ''unprocessed_frames/frame_0002.png'' = Some 11
   \<and> face_get sample_env 11 = Some []
   \<and> is_dir (files frames_world) (dirname ''processed_frames/frame_0002.png'')
   \<and> lookup (files frames_world) ''processed_frames/frame_0002.png'' \<noteq> Some Dir
   \<and> new_events frames_world
        (snd (kirkify_frame sample_env ''unprocessed_frames/frame_0002.png''
               ''processed_frames/frame_0002.png'' 101 frames_world))
       = [Detect 11, Imwrite ''processed_frames/frame_0002.png'' 11]
   \<and> imread (files (snd (kirkify_frame sample_env ''unprocessed_frames/frame_0002.png''
               ''processed_frames/frame_0002.png'' 101 frames_world)))
        ''processed_frames/frame_0002.png'' = Some 11"
proof -
  have h1: "imread (files frames_world) ''unprocessed_frames/frame_0002.png'' = Some 11"
    by (simp add: sample_defs imread_def lookup_def)
  have h2: "face_get sample_env 11 = Some []"
    by (simp add: sample_defs)
  have h3: "is_dir (files frames_world) (dirname ''processed_frames/frame_0002.png'')"
    by (simp add: sample_defs is_dir_def dirname_def lookup_def)
  have h4: "lookup (files frames_world) ''processed_frames/frame_0002.png'' \<noteq> Some Dir"
    by (simp add: sample_defs lookup_def)
  note t = kirkify_frame_no_faces_unchanged[OF h1 h2 h3 h4, of 101]
  note c2 = conjunct1[OF conjunct2[OF t]]
  note c3 = conjunct2[OF conjunct2[OF t]]
  show ?thesis by (intro conjI h1 h2 h3 h4 c2 trans[OF c3 h1])
qed

section \<open>Frame Pipeline: the claims\<close>

text \<open>
  C4. A run of the pipeline draws from the random generator at most once, and exactly once
  when it completes; the draw is a number in \<open>0..2\<close>, the index of the pool image; and
  every swap call of the run, whatever the frame, is given the same reference face: the
  first face detected in the pool image that this one draw selects. A whole program run
  contains at most one pipeline run: it draws at most once and all its swap calls carry
  one reference face. (The distribution of the draw is the generator's; the model takes
  the drawn numbers as given.)
\<close>

theorem reference_face_chosen_once:
  assumes "process_all_frames en w = (r, w')"
  shows "draws w' \<le> Suc (draws w)
       \<and> (r = None \<longrightarrow> draws w' = Suc (draws w))
       \<and> (\<forall>c \<in> set (swap_calls (new_events w w')). reference_face en w = Some (snd (snd c)))
       \<and> fst (randint en 0 2 w) < 3
       \<and> draws (snd (main en argv w0)) \<le> Suc (draws w0)
       \<and> (\<exists>k. \<forall>c \<in> set (swap_calls (new_events w0 (snd (main en argv w0)))). snd (snd c) = k)"
proof -
  from pipeline_reference[OF assms] obtain evs where
    d: "draws w' \<le> Suc (draws w)" "r = None \<longrightarrow> draws w' = Suc (draws w)" and
    ev: "events w' = events w @ evs" and
    ref: "\<forall>c \<in> set (swap_calls evs). reference_face en w = Some (snd (snd c))"
    by blast
  have "new_events w w' = evs"
    using ev by (rule new_events_append)
  then have "\<forall>c \<in> set (swap_calls (new_events w w')). reference_face en w = Some (snd (snd c))"
    using ref by simp
  moreover have "fst (randint en 0 2 w) < 3"
    by (simp add: randint_def)
  ultimately show ?thesis
    using d main_one_reference[of en argv w0] by blast
qed

theorem reference_face_chosen_once_witness:
  "fst (process_all_frames sample_env extracted_world) = None
   \<and> draws (snd (process_all_frames sample_env extracted_world)) = Suc (draws extracted_world)
   \<and> reference_face sample_env extracted_world = Some 101
   \<and> swap_calls (new_events extracted_world (snd (process_all_frames sample_env extracted_world)))
       = [(10, 1, 101), (112, 2, 101)]
   \<and> fst (randint sample_env 0 2 extracted_world) = 1
   \<and> draws (snd (main sample_env [''script.py'', ''in.mp4'', ''out.mp4''] initial_world))
       \<le> Suc (draws initial_world)"
proof -
  let ?w' = "snd (process_all_frames sample_env extracted_world)"
  have run: "process_all_frames sample_env extracted_world = (None, ?w')"
    by (simp add: sample_processing)
  note t = reference_face_chosen_once[OF run,
      of "[''script.py'', ''in.mp4'', ''out.mp4'']" initial_world]
  have d: "draws ?w' = Suc (draws extracted_world)"
    using t by blast
  have rf: "reference_face sample_env extracted_world = Some 101"
    by (simp add: eval_defs)
  have calls: "swap_calls (new_events extracted_world ?w') = [(10, 1, 101), (112, 2, 101)]"
    unfolding sample_processing by (simp add: new_events_def sample_defs)
  have rnd: "fst (randint sample_env 0 2 extracted_world) = 1"
    by (simp add: eval_defs)
  have dm: "draws (snd (main sample_env [''script.py'', ''in.mp4'', ''out.mp4''] initial_world))
       \<le> Suc (draws initial_world)"
    using t by blast
  show ?thesis
    by (intro conjI d rf calls rnd dm) (simp add: sample_processing)
qed

text \<open>
  C9. When the pipeline can start (the output directory can be created, the frame
  directory exists, the selected pool image is readable) and detection finds no face in
  the selected pool image, \<^verbatim>\<open>process_all_frames\<close> raises \<^verbatim>\<open>IndexError\<close>; by then it
  has created the output directory and run the one detection, and nothing else: no frame
  is read, swapped or written. Conversely a run that completes had a reference face.
\<close>

theorem empty_reference_detection_raises:
  "(fst (makedirs ''processed_frames'' w) = None
     \<and> lookup (files w) ''unprocessed_frames'' = Some Dir
     \<and> imread (files w) (''kirks/kirk_'' @ dec (fst (randint en 0 2 w)) @ ''.jpg'') = Some kimg
     \<and> face_get en kimg = Some []
    \<longrightarrow> fst (process_all_frames en w) = Some IndexError
       \<and> new_events w (snd (process_all_frames en w))
            = [Makedirs ''processed_frames'', Detect kimg]
       \<and> lookup (files (snd (process_all_frames en w))) ''processed_frames'' = Some Dir)
   \<and> (fst (process_all_frames en w) = None \<longrightarrow> reference_face en w \<noteq> None)"
proof (intro conjI impI)
  assume a: "fst (makedirs ''processed_frames'' w) = None
     \<and> lookup (files w) ''unprocessed_frames'' = Some Dir
     \<and> imread (files w) (''kirks/kirk_'' @ dec (fst (randint en 0 2 w)) @ ''.jpg'') = Some kimg
     \<and> face_get en kimg = Some []"
  let ?p = "''processed_frames''"
  obtain w1 where mk: "makedirs ?p w = (None, w1)"
    using a by (cases "makedirs ?p w") simp
  let ?w2 = "w1\<lparr>draws := Suc (draws w1)\<rparr>"
  let ?w3 = "log (Detect kimg) ?w2"
  note ev1 = makedirs_events[of ?p w, unfolded mk snd_conv]
  note dr1 = makedirs_draws[of ?p w, unfolded mk snd_conv]
  have dir1: "lookup (files w1) ''unprocessed_frames'' = Some Dir"
    using a makedirs_keeps_Dir[of w "''unprocessed_frames''" ?p, unfolded mk snd_conv] by blast
  have dirp: "lookup (files w1) ?p = Some Dir"
    using makedirs_ok_Dir[of ?p w, unfolded mk snd_conv fst_conv] by simp
  have ld: "listdir (files w1) ''unprocessed_frames''
      = Inr (dir_entries (files w1) ''unprocessed_frames'')"
    by (simp add: listdir_def dir1)
  have rnd: "randint en 0 2 w1 = (rand_src en (draws w1) mod 3, ?w2)"
    by (simp add: randint_def)
  have "imread (files w1) (''kirks/kirk_'' @ dec (rand_src en (draws w) mod 3) @ ''.jpg'')
      = imread (files w) (''kirks/kirk_'' @ dec (rand_src en (draws w) mod 3) @ ''.jpg'')"
    using makedirs_lookup_other[of "''kirks/kirk_'' @ dec (rand_src en (draws w) mod 3) @ ''.jpg''"
        ?p w, unfolded mk snd_conv]
    by (simp add: imread_def)
  then have kp: "imread (files ?w2)
      (''kirks/kirk_'' @ dec (rand_src en (draws w1) mod 3) @ ''.jpg'') = Some kimg"
    using a by (simp add: randint_def dr1)
  have det: "detect en (Some kimg) ?w2 = (Inr [], ?w3)"
    using a by (simp add: detect_def)
  have res: "process_all_frames en w = (Some IndexError, ?w3)"
    unfolding process_all_frames_def mk ld rnd Let_def prod.case sum.case option.case kp det
      list.case
    by (rule refl)
  show "fst (process_all_frames en w) = Some IndexError"
    by (simp add: res)
  show "new_events w (snd (process_all_frames en w)) = [Makedirs ?p, Detect kimg]"
    by (simp add: res new_events_def world_simps ev1)
  show "lookup (files (snd (process_all_frames en w))) ?p = Some Dir"
    by (simp add: res world_simps dirp)
next
  assume ok: "fst (process_all_frames en w) = None"
  then have "process_all_frames en w = (None, snd (process_all_frames en w))"
    by (metis prod.collapse)
  then show "reference_face en w \<noteq> None"
    by (cases rule: process_all_frames_cases) simp_all
qed

theorem empty_reference_detection_raises_witness:
  "fst (makedirs ''processed_frames'' extracted_world) = None
   \<and> lookup (files extracted_world) ''unprocessed_frames'' = Some Dir
   \<and> imread (files extracted_world)
        (''kirks/kirk_'' @ dec (fst (randint faceless_env 0 2 extracted_world)) @ ''.jpg'')
      = Some 101
   \<and> face_get faceless_env 101 = Some []
   \<and> fst (process_all_frames faceless_env extracted_world) = Some IndexError
   \<and> new_events extracted_world (snd (process_all_frames faceless_env extracted_world))
        = [Makedirs ''processed_frames'', Detect 101]
   \<and> fst (process_all_frames sample_env extracted_world) = None
   \<and> reference_face sample_env extracted_world \<noteq> None"
proof -
  have h1: "fst (makedirs ''processed_frames'' extracted_world) = None"
    by (simp add: eval_defs)
  have h2: "lookup (files extracted_world) ''unprocessed_frames'' = Some Dir"
    by (simp add: eval_defs)
  have h3: "imread (files extracted_world)
        (''kirks/kirk_'' @ dec (fst (randint faceless_env 0 2 extracted_world)) @ ''.jpg'')
      = Some 101"
    by (simp add: eval_defs)
  have h4: "face_get faceless_env 101 = Some []"
    by (simp add: eval_defs)
  have h5: "fst (process_all_frames sample_env extracted_world) = None"
    by (simp add: sample_processing)
  note t1 = empty_reference_detection_raises[of extracted_world faceless_env 101,
      THEN conjunct1, rule_format, OF conjI[OF h1 conjI[OF h2 conjI[OF h3 h4]]]]
  note t2 = empty_reference_detection_raises[of extracted_world sample_env 101,
      THEN conjunct2, rule_format, OF h5]
  show ?thesis
    by (intro conjI h1 h2 h3 h4 h5 t2 conjunct1[OF t1] conjunct1[OF conjunct2[OF t1]])
qed

text \<open>
  C1 (as amended). A run of \<^verbatim>\<open>process_all_frames\<close> that completes writes exactly one
  output per \<^verbatim>\<open>.png\<close> entry of the unprocessed-frames directory, to the processed-frames
  directory under the same file name, in ascending order of the file names as strings.
  For a frame sequence whose indices are all below 10000 (four digits) that is the
  ascending numeric order of the frame index, and every output that is not blocked by a
  directory of its name then exists as an image.
\<close>

theorem frames_processed_in_filename_order:
  assumes "process_all_frames en w = (None, w')"
  shows "map fst (imwrite_calls (new_events w w'))
           = map (\<lambda>f. ''processed_frames/'' @ f)
               (filter (\<lambda>f. endswith f ''.png'')
                  (sort (dir_entries (files w) ''unprocessed_frames'')))
       \<and> (sorted_wrt (<) idxs \<and> (\<forall>i \<in> set idxs. i < 10000)
           \<and> set (filter (\<lambda>f. endswith f ''.png'') (dir_entries (files w) ''unprocessed_frames''))
               = frame_name ` set idxs
          \<longrightarrow> map fst (imwrite_calls (new_events w w'))
                = map (\<lambda>i. ''processed_frames/'' @ frame_name i) idxs
              \<and> (\<forall>i \<in> set idxs.
                    lookup (files w) (''processed_frames/'' @ frame_name i) \<noteq> Some Dir
                    \<longrightarrow> imread (files w') (''processed_frames/'' @ frame_name i) \<noteq> None))"
  using assms
proof (cases rule: process_all_frames_cases)
  case (early evs)
  then show ?thesis by simp
next
  case (loop kf kimg w3)
  let ?p = "''processed_frames''"
  let ?ff = "filter (\<lambda>f. endswith f ''.png'')
               (sort (dir_entries (files w) ''unprocessed_frames''))"
  from process_frames_effect[OF loop(7)] obtain evs where
    ev: "events w' = events w3 @ evs" and
    wr: "map fst (imwrite_calls evs) = map (\<lambda>f. ''processed_frames/'' @ f) ?ff"
    by blast
  have "events w' = events w @ ([Makedirs ?p, Detect kimg] @ evs)"
    using ev loop(2) by simp
  then have "new_events w w' = [Makedirs ?p, Detect kimg] @ evs"
    by (rule new_events_append)
  then have calls: "map fst (imwrite_calls (new_events w w'))
      = map (\<lambda>f. ''processed_frames/'' @ f) ?ff"
    using wr by simp
  have second: "map fst (imwrite_calls (new_events w w'))
                = map (\<lambda>i. ''processed_frames/'' @ frame_name i) idxs
              \<and> (\<forall>i \<in> set idxs.
                    lookup (files w) (''processed_frames/'' @ frame_name i) \<noteq> Some Dir
                    \<longrightarrow> imread (files w') (''processed_frames/'' @ frame_name i) \<noteq> None)"
    if h: "sorted_wrt (<) idxs \<and> (\<forall>i \<in> set idxs. i < 10000)
           \<and> set (filter (\<lambda>f. endswith f ''.png'') (dir_entries (files w) ''unprocessed_frames''))
               = frame_name ` set idxs"
  proof -
    have ff: "?ff = map frame_name idxs"
      using h by (intro png_frames_in_order distinct_dir_entries) simp_all
    have dir3: "is_dir (files w3) ?p"
      using makedirs_ok_Dir[OF loop(6)] by (simp add: is_dir_def loop(5))
    have noslash: "\<forall>n \<in> set (map frame_name idxs). CHR ''/'' \<notin> set n"
      by (simp add: frame_name_no_slash)
    note wrt = process_frames_written[OF loop(7)[unfolded ff] dir3 noslash, THEN conjunct2]
    have same: "lookup (files w3) (''processed_frames/'' @ n) = lookup (files w) (''processed_frames/'' @ n)"
      for n
      unfolding loop(5) by (rule makedirs_lookup_other) simp
    have "\<forall>i \<in> set idxs.
            lookup (files w) (''processed_frames/'' @ frame_name i) \<noteq> Some Dir
            \<longrightarrow> imread (files w') (''processed_frames/'' @ frame_name i) \<noteq> None"
      using wrt same by simp
    then show ?thesis using calls ff by (simp add: comp_def)
  qed
  show ?thesis using calls second by blast
qed

theorem frames_processed_in_filename_order_witness:
  "fst (process_all_frames sample_env extracted_world) = None
   \<and> sorted_wrt (<) [1::nat, 2]
   \<and> set (filter (\<lambda>f. endswith f ''.png'')
            (dir_entries (files extracted_world) ''unprocessed_frames''))
       = frame_name ` set [1, 2]
   \<and> map fst (imwrite_calls (new_events extracted_world
          (snd (process_all_frames sample_env extracted_world))))
       = map (\<lambda>i. ''processed_frames/'' @ frame_name i) [1, 2]
   \<and> imread (files (snd (process_all_frames sample_env extracted_world)))
        (''processed_frames/'' @ frame_name 2) \<noteq> None"
proof -
  let ?w' = "snd (process_all_frames sample_env extracted_world)"
  have run: "process_all_frames sample_env extracted_world = (None, ?w')"
    by (simp add: sample_processing)
  have h0: "fst (process_all_frames sample_env extracted_world) = None"
    by (simp add: sample_processing)
  have h1: "sorted_wrt (<) [1::nat, 2]"
    by simp
  have h2: "\<forall>i \<in> set [1::nat, 2]. i < 10000"
    by simp
  have h3: "set (filter (\<lambda>f. endswith f ''.png'')
            (dir_entries (files extracted_world) ''unprocessed_frames''))
       = frame_name ` set [1, 2]"
    by (simp add: eval_defs insert_commute)
  have h4: "lookup (files extracted_world) (''processed_frames/'' @ frame_name 2) \<noteq> Some Dir"
    by (simp add: eval_defs)
  note t = frames_processed_in_filename_order[OF run, of "[1, 2]", THEN conjunct2, rule_format,
      OF conjI[OF h1 conjI[OF h2 h3]]]
  have c2: "imread (files ?w') (''processed_frames/'' @ frame_name 2) \<noteq> None"
    using conjunct2[OF t] h4 by simp
  show ?thesis
    by (intro conjI h0 h1 h3 conjunct1[OF t] c2)
qed

text \<open>
  C1 as stated fails on the order: names are sorted as strings, and the pattern
  \<^verbatim>\<open>%04d\<close> pads to four digits only, so frame 10000 is processed before frame 2000.
\<close>

theorem frames_processed_in_numeric_order_counterexample:
  "dir_entries (files long_video_world) ''unprocessed_frames''
     = [frame_name 10000, frame_name 2000]
   \<and> fst (process_all_frames sample_env long_video_world) = None
   \<and> map fst (imwrite_calls (new_events long_video_world
          (snd (process_all_frames sample_env long_video_world))))
       = [''processed_frames/'' @ frame_name 10000, ''processed_frames/'' @ frame_name 2000]
   \<and> (2000 :: nat) < 10000
   \<and> frame_name 10000 < frame_name 1001"
  by (simp add: eval_defs)

section \<open>Run Orchestrator: the claims\<close>

text \<open>
  C5 (as amended). An invocation that is not in initialization mode (its first argument
  is not \<^verbatim>\<open>init\<close>) and has a wrong argument count or an input path that does not exist
  prints the usage message, respectively the error message, and exits with status 1;
  it touches no file, makes no call and draws no random number.
\<close>

theorem usage_errors_exit_1:
  assumes "\<not> (1 < length argv \<and> argv ! 1 = ''init'')"
    and "length argv \<noteq> 3 \<or> \<not> path_exists (files w) (argv ! 1)"
  shows "fst (main en argv w) = 1
       \<and> files (snd (main en argv w)) = files w
       \<and> events (snd (main en argv w)) = events w
       \<and> draws (snd (main en argv w)) = draws w
       \<and> printed (snd (main en argv w)) = printed w @
            [if length argv \<noteq> 3 then ''Usage: python script.py <input_video> <output_video>''
             else ''ERROR: target path not real'']"
proof -
  from assms(1) have ni: "(1 < length argv \<and> argv ! 1 = ''init'') = False"
    by blast
  show ?thesis
  proof (cases "length argv \<noteq> 3")
    case True
    then show ?thesis
      unfolding main_def ni if_False by (simp add: world_simps)
  next
    case False
    then have "\<not> path_exists (files w) (argv ! 1)" using assms(2) by blast
    then show ?thesis using False
      unfolding main_def ni if_False by (simp add: world_simps Let_def)
  qed
qed

theorem usage_errors_exit_1_witness:
  "length [''script.py''] \<noteq> 3
   \<and> fst (main sample_env [''script.py''] initial_world) = 1
   \<and> files (snd (main sample_env [''script.py''] initial_world)) = files initial_world
   \<and> \<not> path_exists (files initial_world) ''missing.mp4''
   \<and> fst (main sample_env [''script.py'', ''missing.mp4'', ''out.mp4''] initial_world) = 1
   \<and> files (snd (main sample_env [''script.py'', ''missing.mp4'', ''out.mp4''] initial_world))
       = files initial_world
   \<and> events (snd (main sample_env [''script.py'', ''missing.mp4'', ''out.mp4''] initial_world))
       = events initial_world"
proof -
  have a1: "\<not> (1 < length [''script.py''] \<and> [''script.py''] ! 1 = ''init'')"
    by simp
  have a2: "length [''script.py''] \<noteq> 3"
    by simp
  have b1: "\<not> (1 < length [''script.py'', ''missing.mp4'', ''out.mp4'']
              \<and> [''script.py'', ''missing.mp4'', ''out.mp4''] ! 1 = ''init'')"
    by simp
  have b2: "\<not> path_exists (files initial_world) ''missing.mp4''"
    by (simp add: path_exists_def lookup_def initial_world_def)
  have b2': "\<not> path_exists (files initial_world) ([''script.py'', ''missing.mp4'', ''out.mp4''] ! 1)"
    using b2 by simp
  note t1 = usage_errors_exit_1[OF a1 disjI1[OF a2], of sample_env initial_world]
  note t2 = usage_errors_exit_1[OF b1 disjI2[OF b2'], of sample_env]
  show ?thesis
    by (intro conjI a2 b2 conjunct1[OF t1] conjunct1[OF conjunct2[OF t1]]
        conjunct1[OF t2] conjunct1[OF conjunct2[OF t2]]
        conjunct1[OF conjunct2[OF conjunct2[OF t2]]])
qed

text \<open>
  C5 as stated fails for a wrong argument count behind the token \<^verbatim>\<open>init\<close>: four
  arguments with \<^verbatim>\<open>init\<close> first take initialization mode and exit with status 0.
\<close>

theorem init_with_extra_arguments_counterexample:
  "length [''script.py'', ''init'', ''a'', ''b''] \<noteq> 3
   \<and> fst (main sample_env [''script.py'', ''init'', ''a'', ''b''] initial_world) = 0"
  by (simp add: main_def initialize_faceanalysis_and_swapper_def sample_env_def)

text \<open>
  C6. In a conversion run whose models have loaded, let frame extraction, audio extraction,
  frame processing or reassembly raise, in the state the steps before it left. Then the
  program exits with status 1 in the state the failing step left: no removal
  (\<^verbatim>\<open>rmtree\<close>, \<^verbatim>\<open>os.remove\<close>) has been called, no tool command has been run twice and
  every tool run but the last ended with status 0, and the unprocessed-frames directory
  is still there (unless creating it was the failure). A tool run that exits non-zero
  raises, and so do frame extraction, audio extraction and reassembly when their tool run
  exits non-zero.
\<close>

theorem failed_step_aborts_without_cleanup:
  assumes "path_exists (files w) target"
    and "target \<noteq> ''init''"
    and "initialize_faceanalysis_and_swapper en w = (None, w1)"
    and "extract_frames en target (print ''Extracting frames...'' w1) = (Some e, w')
       \<or> (extract_frames en target (print ''Extracting frames...'' w1) = (None, w2)
          \<and> extract_audio en target (print ''Extracting audio...'' w2) = (Inl e, w'))
       \<or> (extract_frames en target (print ''Extracting frames...'' w1) = (None, w2)
          \<and> extract_audio en target (print ''Extracting audio...'' w2) = (Inr a, w3)
          \<and> process_all_frames en (print ''Processing frames...'' w3) = (Some e, w'))
       \<or> (extract_frames en target (print ''Extracting frames...'' w1) = (None, w2)
          \<and> extract_audio en target (print ''Extracting audio...'' w2) = (Inr a, w3)
          \<and> process_all_frames en (print ''Processing frames...'' w3) = (None, w4)
          \<and> reconstruct_video en
               (fps_str en (files (print ''Reconstructing video...'' w4)) target) a output_path
               (print ''Reconstructing video...'' w4) = (Some e, w'))"
  shows "main en [prog, target, output_path] w = (1, w')
       \<and> removals (new_events w w') = []
       \<and> distinct (map fst (ffmpeg_runs (new_events w w')))
       \<and> (\<forall>c \<in> set (butlast (ffmpeg_runs (new_events w w'))). snd c = 0)
       \<and> (fst (makedirs ''unprocessed_frames'' (print ''Extracting frames...'' w1)) = None
            \<longrightarrow> lookup (files w') ''unprocessed_frames'' = Some Dir)
       \<and> (fst (ffmpeg en cmd (files w0)) \<noteq> 0 \<longrightarrow>
            fst (subprocess_run en cmd w0)
              = Some (CalledProcessError (fst (ffmpeg en cmd (files w0)))))
       \<and> (fst (makedirs ''unprocessed_frames'' w0) = None
          \<and> fst (ffmpeg en
                 [''ffmpeg'', ''-i'', v, ''-q:v'', ''2'', ''unprocessed_frames/frame_%04d.png'']
                 (files (snd (makedirs ''unprocessed_frames'' w0)))) \<noteq> 0
            \<longrightarrow> (\<exists>code. fst (extract_frames en v w0) = Some (CalledProcessError code)))
       \<and> (fst (ffmpeg en
                 [''ffmpeg'', ''-i'', v, ''-map'', ''0:a'', ''-acodec'', ''copy'', ''audio.aac'']
                 (files w0)) \<noteq> 0
            \<longrightarrow> (\<exists>code. fst (extract_audio en v w0) = Inl (CalledProcessError code)))
       \<and> (fst (makedirs ''processed_frames'' w0) = None
          \<and> fst (ffmpeg en
                 [''ffmpeg'', ''-framerate'', fps, ''-i'', ''processed_frames/frame_%04d.png'',
                  ''-i'', a0, ''-c:v'', ''libx264'', ''-pix_fmt'', ''yuv420p'',
                  ''-c:a'', ''copy'', ''-shortest'', out]
                 (files (snd (makedirs ''processed_frames'' w0)))) \<noteq> 0
            \<longrightarrow> (\<exists>code. fst (reconstruct_video en fps a0 out w0)
                          = Some (CalledProcessError code)))"
proof -
  from failing_step_ends_run[OF assms(3,4)] obtain st where
    run: "run_conversion en target output_path w = (Some (st, e), w')" and
    st: "st = Extraction \<or> st = Processing \<or> st = Reassembly" and
    kind: "fst (makedirs ''unprocessed_frames'' (print ''Extracting frames...'' w1)) = None
           \<Longrightarrow> \<not> (st = Extraction \<and> e = FileExistsError)"
    by blast
  have m: "main en [prog, target, output_path] w = (1, w')"
    using run assms(1,2) by (simp add: main_def Let_def)
  note facts = aborted_run_facts[OF run st]
  note f1 = conjunct1[OF facts]
  note f2 = conjunct1[OF conjunct2[OF facts]]
  note f3 = conjunct1[OF conjunct2[OF conjunct2[OF facts]]]
  note f4 = conjunct2[OF conjunct2[OF conjunct2[OF facts]], rule_format]
  have dir: "fst (makedirs ''unprocessed_frames'' (print ''Extracting frames...'' w1)) = None
            \<longrightarrow> lookup (files w') ''unprocessed_frames'' = Some Dir"
  proof
    assume mk: "fst (makedirs ''unprocessed_frames'' (print ''Extracting frames...'' w1)) = None"
    show "lookup (files w') ''unprocessed_frames'' = Some Dir"
      by (rule f4[OF kind[OF mk]])
  qed
  have t1: "fst (ffmpeg en cmd (files w0)) \<noteq> 0 \<longrightarrow>
            fst (subprocess_run en cmd w0)
              = Some (CalledProcessError (fst (ffmpeg en cmd (files w0))))"
    by (intro impI subprocess_run_raises)
  have t2: "fst (makedirs ''unprocessed_frames'' w0) = None
          \<and> fst (ffmpeg en
                 [''ffmpeg'', ''-i'', v, ''-q:v'', ''2'', ''unprocessed_frames/frame_%04d.png'']
                 (files (snd (makedirs ''unprocessed_frames'' w0)))) \<noteq> 0
            \<longrightarrow> (\<exists>code. fst (extract_frames en v w0) = Some (CalledProcessError code))"
    by (intro impI exI, elim conjE, rule extract_frames_raises)
  have t3: "fst (ffmpeg en
                 [''ffmpeg'', ''-i'', v, ''-map'', ''0:a'', ''-acodec'', ''copy'', ''audio.aac'']
                 (files w0)) \<noteq> 0
            \<longrightarrow> (\<exists>code. fst (extract_audio en v w0) = Inl (CalledProcessError code))"
    by (intro impI exI, rule extract_audio_raises)
  have t4: "fst (makedirs ''processed_frames'' w0) = None
          \<and> fst (ffmpeg en
                 [''ffmpeg'', ''-framerate'', fps, ''-i'', ''processed_frames/frame_%04d.png'',
                  ''-i'', a0, ''-c:v'', ''libx264'', ''-pix_fmt'', ''yuv420p'',
                  ''-c:a'', ''copy'', ''-shortest'', out]
                 (files (snd (makedirs ''processed_frames'' w0)))) \<noteq> 0
            \<longrightarrow> (\<exists>code. fst (reconstruct_video en fps a0 out w0)
                          = Some (CalledProcessError code))"
    by (intro impI exI, elim conjE, rule reconstruct_video_raises)
  show ?thesis
    by (intro conjI m f1 f2 f3 dir t1 t2 t3 t4)
qed

theorem failed_step_aborts_without_cleanup_witness:
  "fst (main broken_encoder_env [''script.py'', ''in.mp4'', ''out.mp4''] initial_world) = 1
   \<and> removals (new_events initial_world
         (snd (main broken_encoder_env [''script.py'', ''in.mp4'', ''out.mp4''] initial_world)))
       = []
   \<and> map snd (ffmpeg_runs (new_events initial_world
         (snd (main broken_encoder_env [''script.py'', ''in.mp4'', ''out.mp4''] initial_world))))
       = [0, 0, 1]
   \<and> lookup (files (snd (main broken_encoder_env [''script.py'', ''in.mp4'', ''out.mp4'']
         initial_world))) ''unprocessed_frames'' = Some Dir
   \<and> lookup (files (snd (main broken_encoder_env [''script.py'', ''in.mp4'', ''out.mp4'']
         initial_world))) ''processed_frames/frame_0001.png'' = Some (File (Image 215))
   \<and> lookup (files (snd (main broken_encoder_env [''script.py'', ''in.mp4'', ''out.mp4'']
         initial_world))) ''audio.aac'' = Some (File (Blob 2))
   \<and> lookup (files (snd (main broken_encoder_env [''script.py'', ''in.mp4'', ''out.mp4'']
         initial_world))) ''out.mp4'' = None
   \<and> fst (main silent_env [''script.py'', ''in.mp4'', ''out.mp4''] initial_world) = 1
   \<and> removals (new_events initial_world
         (snd (main silent_env [''script.py'', ''in.mp4'', ''out.mp4''] initial_world))) = []
   \<and> lookup (files (snd (main silent_env [''script.py'', ''in.mp4'', ''out.mp4'']
         initial_world))) ''unprocessed_frames/frame_0001.png'' = Some (File (Image 10))"
proof -
  let ?argv = "[''script.py'', ''in.mp4'', ''out.mp4'']"
  let ?B = "broken_encoder_env"
  let ?S = "silent_env"
  have ex: "path_exists (files initial_world) ''in.mp4''"
    by (simp add: sample_defs path_exists_def lookup_def)
  have ni: "''in.mp4'' \<noteq> ''init''"
    by simp
  let ?b0 = "initialize_faceanalysis_and_swapper ?B initial_world"
  have b0: "?b0 = (None, snd ?b0)"
    by (rule prod_eqI) (simp_all add: eval_defs broken_encoder_env_def)
  let ?b1 = "extract_frames ?B ''in.mp4'' (print ''Extracting frames...'' (snd ?b0))"
  have b1: "?b1 = (None, snd ?b1)"
    by (rule prod_eqI) (simp_all add: eval_defs broken_encoder_env_def)
  let ?b2 = "extract_audio ?B ''in.mp4'' (print ''Extracting audio...'' (snd ?b1))"
  have b2: "?b2 = (Inr ''audio.aac'', snd ?b2)"
    by (rule prod_eqI) (simp_all add: eval_defs broken_encoder_env_def)
  let ?b3 = "process_all_frames ?B (print ''Processing frames...'' (snd ?b2))"
  have b3: "?b3 = (None, snd ?b3)"
    by (rule prod_eqI) (simp_all add: eval_defs broken_encoder_env_def)
  let ?b4 = "reconstruct_video ?B
      (fps_str ?B (files (print ''Reconstructing video...'' (snd ?b3))) ''in.mp4'')
      ''audio.aac'' ''out.mp4'' (print ''Reconstructing video...'' (snd ?b3))"
  have b4: "?b4 = (Some (CalledProcessError 1), snd ?b4)"
    by (rule prod_eqI) (simp_all add: eval_defs broken_encoder_env_def)
  have bmk: "fst (makedirs ''unprocessed_frames'' (print ''Extracting frames...'' (snd ?b0)))
      = None"
    by (simp add: eval_defs broken_encoder_env_def)
  note tb = failed_step_aborts_without_cleanup[where prog = "''script.py''",
      OF ex ni b0 disjI2[OF disjI2[OF disjI2[OF conjI[OF b1 conjI[OF b2 conjI[OF b3 b4]]]]]]]
  note mb = conjunct1[OF tb]
  have c1: "fst (main ?B ?argv initial_world) = 1"
    by (simp only: mb fst_conv)
  have c2: "removals (new_events initial_world (snd (main ?B ?argv initial_world))) = []"
    using conjunct1[OF conjunct2[OF tb]] by (simp only: mb snd_conv)
  have c4: "lookup (files (snd (main ?B ?argv initial_world))) ''unprocessed_frames'' = Some Dir"
    using conjunct1[OF conjunct2[OF conjunct2[OF conjunct2[OF conjunct2[OF tb]]]],
        rule_format, OF bmk]
    by (simp only: mb snd_conv)
  have c3: "map snd (ffmpeg_runs (new_events initial_world
         (snd (main ?B ?argv initial_world)))) = [0, 0, 1]"
    by (simp add: eval_defs broken_encoder_env_def)
  have c5: "lookup (files (snd (main ?B ?argv initial_world)))
      ''processed_frames/frame_0001.png'' = Some (File (Image 215))"
    by (simp add: eval_defs broken_encoder_env_def)
  have c6: "lookup (files (snd (main ?B ?argv initial_world))) ''audio.aac''
      = Some (File (Blob 2))"
    by (simp add: eval_defs broken_encoder_env_def)
  have c7: "lookup (files (snd (main ?B ?argv initial_world))) ''out.mp4'' = None"
    by (simp add: eval_defs broken_encoder_env_def)
  let ?s0 = "initialize_faceanalysis_and_swapper ?S initial_world"
  have s0: "?s0 = (None, snd ?s0)"
    by (rule prod_eqI) (simp_all add: eval_defs silent_env_def)
  let ?s1 = "extract_frames ?S ''in.mp4'' (print ''Extracting frames...'' (snd ?s0))"
  have s1: "?s1 = (None, snd ?s1)"
    by (rule prod_eqI) (simp_all add: eval_defs silent_env_def)
  let ?s2 = "extract_audio ?S ''in.mp4'' (print ''Extracting audio...'' (snd ?s1))"
  have s2: "?s2 = (Inl (CalledProcessError 1), snd ?s2)"
    by (rule prod_eqI) (simp_all add: eval_defs silent_env_def)
  note ts = failed_step_aborts_without_cleanup[where prog = "''script.py''"
      and output_path = "''out.mp4''", OF ex ni s0 disjI2[OF disjI1[OF conjI[OF s1 s2]]]]
  note ms = conjunct1[OF ts]
  have c8: "fst (main ?S ?argv initial_world) = 1"
    by (simp only: ms fst_conv)
  have c9: "removals (new_events initial_world (snd (main ?S ?argv initial_world))) = []"
    using conjunct1[OF conjunct2[OF ts]] by (simp only: ms snd_conv)
  have c10: "lookup (files (snd (main ?S ?argv initial_world)))
      ''unprocessed_frames/frame_0001.png'' = Some (File (Image 10))"
    by (simp add: eval_defs silent_env_def)
  show ?thesis
    by (intro conjI c1 c2 c3 c4 c5 c6 c7 c8 c9 c10)
qed

text \<open>
  C7, as amended. \<^verbatim>\<open>cleanup\<close> calls \<^verbatim>\<open>rmtree\<close> on the two frame directories and
  removes at most the audio file besides; every path outside the two directories and other
  than the audio path is left as it was. After a conversion run that exits with status 0,
  on a system that refuses none of \<^verbatim>\<open>rmtree\<close>'s removals, neither directory, nothing
  below them and no \<^verbatim>\<open>audio.aac\<close> exists.
\<close>

theorem cleanup_removes_intermediates:
  "(\<forall>q. \<not> under ''unprocessed_frames'' q \<and> \<not> under ''processed_frames'' q \<and> q \<noteq> a
        \<longrightarrow> lookup (files (snd (cleanup en a w))) q = lookup (files w) q)
   \<and> (removals (new_events w (snd (cleanup en a w)))
         = [''unprocessed_frames'', ''processed_frames'']
      \<or> removals (new_events w (snd (cleanup en a w)))
           = [''unprocessed_frames'', ''processed_frames'', a])
   \<and> (\<not> (1 < length argv \<and> argv ! 1 = ''init'') \<and> main en argv w = (0, w')
       \<and> (\<forall>fsys x. \<not> rmtree_keeps en ''unprocessed_frames'' fsys x
                   \<and> \<not> rmtree_keeps en ''processed_frames'' fsys x)
        \<longrightarrow> (\<forall>q. under ''unprocessed_frames'' q \<or> under ''processed_frames'' q
                   \<or> q = ''audio.aac''
                 \<longrightarrow> lookup (files w') q = None))"
proof (intro conjI allI impI)
  fix q assume "\<not> under ''unprocessed_frames'' q \<and> \<not> under ''processed_frames'' q \<and> q \<noteq> a"
  then show "lookup (files (snd (cleanup en a w))) q = lookup (files w) q"
    by (simp add: cleanup_frame)
next
  show "removals (new_events w (snd (cleanup en a w)))
         = [''unprocessed_frames'', ''processed_frames'']
      \<or> removals (new_events w (snd (cleanup en a w)))
           = [''unprocessed_frames'', ''processed_frames'', a]"
    by (rule cleanup_removals)
next
  fix q
  assume a: "\<not> (1 < length argv \<and> argv ! 1 = ''init'') \<and> main en argv w = (0, w')
       \<and> (\<forall>fsys x. \<not> rmtree_keeps en ''unprocessed_frames'' fsys x
                   \<and> \<not> rmtree_keeps en ''processed_frames'' fsys x)"
    and q: "under ''unprocessed_frames'' q \<or> under ''processed_frames'' q \<or> q = ''audio.aac''"
  from a have ni: "(1 < length argv \<and> argv ! 1 = ''init'') = False"
    by blast
  have m: "main en argv w = (0, w')" using a by blast
  have removable: "\<forall>fsys x. \<not> rmtree_keeps en ''unprocessed_frames'' fsys x
                   \<and> \<not> rmtree_keeps en ''processed_frames'' fsys x"
    using a by blast
  obtain r w'' where rc: "run_conversion en (argv ! 1) (argv ! 2) w = (r, w'')"
    by (cases "run_conversion en (argv ! 1) (argv ! 2) w")
  have "r = None \<and> w'' = w'"
    using m rc unfolding main_def ni if_False
    by (cases r) (auto simp: Let_def split: if_splits)
  then have run: "run_conversion en (argv ! 1) (argv ! 2) w = (None, w')"
    using rc by simp
  from run show "lookup (files w') q = None"
  proof (cases rule: run_conversion_cases)
    case (cleaning w6 r7 w7)
    then have r7: "r7 = None" by (cases r7) simp_all
    have w': "w' = print (''Done! Output saved to '' @ argv ! 2) w7"
      using cleaning(5) r7 by simp
    have "lookup (files w7) q = None"
      using cleaning(1,2) cleaning(3)[unfolded r7] q removable
      by (intro cleanup_clears[of "print ''Cleaning up...'' w6" en "''audio.aac''" w7 q])
        (simp_all add: world_simps)
    then show ?thesis by (simp add: w' world_simps)
  qed simp_all
qed

theorem cleanup_removes_intermediates_witness:
  "fst (main sample_env [''script.py'', ''in.mp4'', ''out.mp4''] initial_world) = 0
   \<and> lookup (files (snd (main sample_env [''script.py'', ''in.mp4'', ''out.mp4''] initial_world)))
        ''unprocessed_frames/frame_0001.png'' = None
   \<and> lookup (files (snd (main sample_env [''script.py'', ''in.mp4'', ''out.mp4''] initial_world)))
        ''processed_frames'' = None
   \<and> lookup (files (snd (main sample_env [''script.py'', ''in.mp4'', ''out.mp4''] initial_world)))
        ''audio.aac'' = None
   \<and> lookup (files (snd (cleanup sample_env ''audio.aac'' frames_world))) ''in.mp4''
       = lookup (files frames_world) ''in.mp4''"
proof -
  let ?argv = "[''script.py'', ''in.mp4'', ''out.mp4'']"
  let ?W = "snd (main sample_env ?argv initial_world)"
  have m: "main sample_env ?argv initial_world = (0, ?W)"
    by (simp add: sample_conversion)
  have h0: "fst (main sample_env ?argv initial_world) = 0"
    by (simp add: sample_conversion)
  have ni: "\<not> (1 < length ?argv \<and> ?argv ! 1 = ''init'')"
    by simp
  have rm: "\<forall>fsys x. \<not> rmtree_keeps sample_env ''unprocessed_frames'' fsys x
                   \<and> \<not> rmtree_keeps sample_env ''processed_frames'' fsys x"
    by (simp add: sample_env_def)
  note t = cleanup_removes_intermediates[of "''audio.aac''" sample_env initial_world ?argv ?W]
  note t' = cleanup_removes_intermediates[where a = "''audio.aac''" and w = frames_world
      and en = sample_env]
  note gone = conjunct2[OF conjunct2[OF t], rule_format, OF conjI[OF ni conjI[OF m rm]]]
  have u1: "under ''unprocessed_frames'' ''unprocessed_frames/frame_0001.png''"
    by (simp add: under_def startswith_def)
  have u2: "under ''processed_frames'' ''processed_frames''"
    by (simp add: under_def)
  have k: "\<not> under ''unprocessed_frames'' ''in.mp4'' \<and> \<not> under ''processed_frames'' ''in.mp4''
      \<and> ''in.mp4'' \<noteq> ''audio.aac''"
    by (simp add: under_def startswith_def)
  show ?thesis
    by (intro conjI h0 gone[OF disjI1[OF u1]] gone[OF disjI2[OF disjI1[OF u2]]]
        gone[OF disjI2[OF disjI2[OF refl]]] conjunct1[OF t', rule_format, OF k])
qed

text \<open>
  C7 as stated fails when the system refuses the removals: \<^verbatim>\<open>rmtree\<close> is called with
  \<^verbatim>\<open>ignore_errors=True\<close>, so the run still exits with status 0, and both frame
  directories and the extracted frames are still there.
\<close>

theorem cleanup_leaves_undeletable_counterexample:
  "fst (main sticky_env [''script.py'', ''in.mp4'', ''out.mp4''] initial_world) = 0
   \<and> lookup (files (snd (main sticky_env [''script.py'', ''in.mp4'', ''out.mp4''] initial_world)))
        ''unprocessed_frames'' = Some Dir
   \<and> lookup (files (snd (main sticky_env [''script.py'', ''in.mp4'', ''out.mp4''] initial_world)))
        ''unprocessed_frames/frame_0001.png'' = Some (File (Image 10))
   \<and> lookup (files (snd (main sticky_env [''script.py'', ''in.mp4'', ''out.mp4''] initial_world)))
        ''processed_frames'' = Some Dir
   \<and> removals (new_events initial_world
        (snd (main sticky_env [''script.py'', ''in.mp4'', ''out.mp4''] initial_world)))
       = [''unprocessed_frames'', ''processed_frames'', ''audio.aac'']"
  by (simp add: eval_defs sticky_env_def rmtree_fs_keeps_all del: rmtree_fs_def)

text \<open>
  C8. With the one argument \<^verbatim>\<open>init\<close> and models that load, the program loads the
  models, prints \<^verbatim>\<open>initialized!!\<close>, exits with status 0 and leaves every file as it was;
  loading is the only call it makes.
\<close>

theorem init_mode_loads_and_exits_0:
  assumes "models_load en"
  shows "fst (main en [prog, ''init''] w) = 0
       \<and> new_events w (snd (main en [prog, ''init''] w)) = [LoadModels]
       \<and> files (snd (main en [prog, ''init''] w)) = files w
       \<and> printed (snd (main en [prog, ''init''] w)) = printed w @ [''initialized!!'']"
  using assms
  by (simp add: main_def initialize_faceanalysis_and_swapper_def world_simps new_events_def)

theorem init_mode_loads_and_exits_0_witness:
  "models_load sample_env
   \<and> fst (main sample_env [''script.py'', ''init''] initial_world) = 0
   \<and> new_events initial_world (snd (main sample_env [''script.py'', ''init''] initial_world))
       = [LoadModels]
   \<and> files (snd (main sample_env [''script.py'', ''init''] initial_world)) = files initial_world
   \<and> printed (snd (main sample_env [''script.py'', ''init''] initial_world)) = [''initialized!!'']"
proof -
  have h: "models_load sample_env"
    by (simp add: sample_env_def)
  have p: "printed initial_world = []"
    by (simp add: initial_world_def)
  note t = init_mode_loads_and_exits_0[OF h, of "''script.py''" initial_world]
  have "printed (snd (main sample_env [''script.py'', ''init''] initial_world)) = [''initialized!!'']"
    using conjunct2[OF conjunct2[OF conjunct2[OF t]]] p by simp
  then show ?thesis
    by (intro conjI h conjunct1[OF t] conjunct1[OF conjunct2[OF t]]
        conjunct1[OF conjunct2[OF conjunct2[OF t]]])
qed

text \<open>
  C10. Whatever follows a first argument \<^verbatim>\<open>init\<close>, the program takes initialization
  mode: loading the models is its only call, no tool is run and no file changes; with
  models that load it prints the confirmation and exits with status 0.
\<close>

theorem init_token_wins_over_argument_count:
  "new_events w (snd (main en (prog # ''init'' # rest) w)) = [LoadModels]
   \<and> files (snd (main en (prog # ''init'' # rest) w)) = files w
   \<and> ffmpeg_runs (new_events w (snd (main en (prog # ''init'' # rest) w))) = []
   \<and> (models_load en \<longrightarrow>
        fst (main en (prog # ''init'' # rest) w) = 0
        \<and> printed (snd (main en (prog # ''init'' # rest) w)) = printed w @ [''initialized!!''])"
  by (simp add: main_def initialize_faceanalysis_and_swapper_def world_simps new_events_def)

theorem init_token_wins_over_argument_count_witness:
  "models_load sample_env
   \<and> length [''script.py'', ''init'', ''in.mp4'', ''out.mp4''] = 4
   \<and> fst (main sample_env [''script.py'', ''init'', ''in.mp4'', ''out.mp4''] initial_world) = 0
   \<and> ffmpeg_runs (new_events initial_world
        (snd (main sample_env [''script.py'', ''init'', ''in.mp4'', ''out.mp4''] initial_world))) = []
   \<and> files (snd (main sample_env [''script.py'', ''init'', ''in.mp4'', ''out.mp4''] initial_world))
       = files initial_world"
proof -
  have h: "models_load sample_env"
    by (simp add: sample_env_def)
  note t = init_token_wins_over_argument_count[of initial_world sample_env "''script.py''"
      "[''in.mp4'', ''out.mp4'']"]
  note c4 = conjunct2[OF conjunct2[OF conjunct2[OF t]], rule_format, OF h]
  show ?thesis
    by (intro conjI h conjunct1[OF c4] conjunct1[OF conjunct2[OF t]]
        conjunct1[OF conjunct2[OF conjunct2[OF t]]]) simp
qed

end
